theory Spec2Isabelle
  imports Main "HOL-Library.AList"
begin

section \<open>Values of the JavaScript program\<close>

text \<open>
  The program is \<^verbatim>\<open>generate\<close> of \<^verbatim>\<open>src/index.js\<close>: it reads a settings file, surveys
  an AWS account (hosted zone, regions, service quotas, availability zones, the spot
  service-linked role) and hands one settings object to the template engine. The same source
  file holds the deprecated shell script \<^verbatim>\<open>deploy.sh\<close>, the earlier form of the pipeline; only
  its quota gate is modelled, further down.

  A parsed JSON document. Numbers are integers here: the program only tests settings
  values for truthiness.
\<close>

datatype json =
    JNull
  | JBool bool
  | JNum int
  | JStr string
  | JArr "json list"
  | JObj "(string \<times> json) list"

text \<open>
  A JavaScript object with string keys is an association list in insertion order, its keys
  distinct: \<^verbatim>\<open>o[k]\<close> is \<open>map_of o k\<close> (\<open>None\<close> for \<^verbatim>\<open>undefined\<close>), \<^verbatim>\<open>o[k] = v\<close> is
  \<open>AList.update k v o\<close> (in place when the key exists, appended otherwise), and
  \<^verbatim>\<open>Object.keys(o)\<close> is \<open>map fst o\<close>. The keys here are region names, quota codes and
  settings names: none is an array index, which JavaScript would list first, or a name
  inherited from \<^verbatim>\<open>Object.prototype\<close>.
\<close>

type_synonym 'v obj = "(string \<times> 'v) list"

fun truthy :: "json \<Rightarrow> bool" where
  "truthy JNull = False"
| "truthy (JBool b) = b"
| "truthy (JNum n) = (n \<noteq> 0)"
| "truthy (JStr s) = (s \<noteq> [])"
| "truthy (JArr _) = True"
| "truthy (JObj _) = True"

text \<open>
  \<^verbatim>\<open>s.slice(start, end)\<close> of ECMAScript: a negative index counts from the end, both indices
  are clamped to the length, and an empty range gives the empty string.
\<close>

definition slice :: "int \<Rightarrow> int \<Rightarrow> 'a list \<Rightarrow> 'a list" where
  "slice start end s =
     (let len = int (length s);
          from = (if start < 0 then max (len + start) 0 else min start len);
          to = (if end < 0 then max (len + end) 0 else min end len)
      in take (nat (max (to - from) 0)) (drop (nat from) s))"

section \<open>The responses of the remote services\<close>

record region_row =
  RegionName :: string
  OptInStatus :: string

record quota_row =
  QuotaCode :: string
  Value :: int

record zone_row =
  ZoneName :: string
  State :: string

record family =
  quotaCode :: string

text \<open>
  The object \<^verbatim>\<open>validatedSettings\<close> as it is when \<^verbatim>\<open>sonnetry.export\<close> receives it.
  \<open>dnsBaseName\<close> is \<open>None\<close> when the property was never assigned.
\<close>

record validated_settings =
  dnsBaseName :: "string option"
  providerRegions :: "string list"
  quotas :: "(string \<times> int) list obj"
  regions :: "string list obj"
  spotslr_exists :: bool

text \<open>
  Everything \<^verbatim>\<open>generate\<close> reads from outside. A remote call that throws or rejects is
  \<open>None\<close> (\<open>False\<close> for a call whose result is not used). The two latency functions fix
  the order in which the promises of a fan-out settle: the callbacks run one at a time, in
  the order of their latencies.
\<close>

record env =
  settingsFile :: "json obj option"
  authOk :: bool
  getHostedZone :: "json \<Rightarrow> string option"
  describeRegions :: "region_row list option"
  familiesFile :: "family obj option"
  listServiceQuotas :: "string \<Rightarrow> quota_row list option"
  quotaLatency :: "string \<Rightarrow> nat"
  describeAvailabilityZones :: "string \<Rightarrow> zone_row list option"
  zoneLatency :: "string \<Rightarrow> nat"
  getRole :: "string \<Rightarrow> bool"
  renderOk :: "validated_settings \<Rightarrow> bool"
  applyOk :: bool

section \<open>Effects and outcomes\<close>

text \<open>The calls \<^verbatim>\<open>generate\<close> makes to the outside, in the order it makes them.\<close>

datatype event =
    SetAwsProfile json
  | Auth
  | GetHostedZone json
  | DescribeRegions
  | ListServiceQuotas string
  | DescribeAvailabilityZones string
  | GetRole string
  | Export validated_settings
  | Render
  | Write
  | Apply

text \<open>
  One constructor for each \<^verbatim>\<open>return false\<close> of \<^verbatim>\<open>generate\<close>, named after the message
  printed before it, and \<open>UncaughtRejection\<close> for an exception outside every
  \<^verbatim>\<open>try\<close>, which rejects the promise of \<^verbatim>\<open>generate\<close>. \<open>InvalidSettings\<close> carries the
  keys printed by the \<^verbatim>\<open>Invalid setting key\<close> messages, in the order printed.
\<close>

datatype failure =
    SettingsUnreadable
  | InvalidSettings "string list"
  | HostedZoneUnavailable
  | RegionListUnavailable
  | ZeroQuota
  | RenderFailed
  | ApplyFailed
  | UncaughtRejection

type_synonym 'a run = "(failure + 'a) \<times> event list"

definition andThen :: "'a run \<Rightarrow> ('a \<Rightarrow> 'b run) \<Rightarrow> 'b run" where
  "andThen m k =
     (case m of
        (Inl e, t) \<Rightarrow> (Inl e, t)
      | (Inr x, t) \<Rightarrow> (case k x of (r, t') \<Rightarrow> (r, t @ t')))"

fun isZoneProbe :: "event \<Rightarrow> bool" where
  "isZoneProbe (DescribeAvailabilityZones _) = True"
| "isZoneProbe _ = False"

fun isCapabilityProbe :: "event \<Rightarrow> bool" where
  "isCapabilityProbe (GetHostedZone _) = True"
| "isCapabilityProbe DescribeRegions = True"
| "isCapabilityProbe (ListServiceQuotas _) = True"
| "isCapabilityProbe (DescribeAvailabilityZones _) = True"
| "isCapabilityProbe (GetRole _) = True"
| "isCapabilityProbe _ = False"

fun isSinkCall :: "event \<Rightarrow> bool" where
  "isSinkCall (Export _) = True"
| "isSinkCall Render = True"
| "isSinkCall Write = True"
| "isSinkCall Apply = True"
| "isSinkCall _ = False"

section \<open>The stages of generate\<close>

subsection \<open>Settings (lines 27 to 67)\<close>

definition readSettings :: "env \<Rightarrow> json obj run" where
  "readSettings env =
     (case settingsFile env of
        None \<Rightarrow> (Inl SettingsUnreadable, [])
      | Some settings \<Rightarrow> (Inr settings, []))"

definition authenticate :: "env \<Rightarrow> json obj \<Rightarrow> unit run" where
  "authenticate env settings =
     (if authOk env then Inr () else Inl UncaughtRejection,
      (case map_of settings ''awsProfile'' of
         None \<Rightarrow> []
       | Some p \<Rightarrow> if truthy p then [SetAwsProfile p] else []) @ [Auth])"

definition allowedSettings :: "string list" where
  "allowedSettings =
     [''campaign_data_ttl'', ''campaign_max_price'', ''georestrictions'', ''route53Zone'',
      ''awsProfile'', ''criticalEventsSMS'', ''adminEmail'', ''sAMLMetadataFile'',
      ''sAMLMetadataUrl'', ''primaryRegion'']"

text \<open>
  The keys that pass the filter of line 61, each of which line 62 prints. The array
  \<^verbatim>\<open>badSettings\<close> of the source holds the results of \<^verbatim>\<open>console.log\<close> for them and has
  the same length.
\<close>

definition badSettings :: "json obj \<Rightarrow> string list" where
  "badSettings settings = filter (\<lambda>e. e \<notin> set allowedSettings) (map fst settings)"

definition checkSettings :: "json obj \<Rightarrow> unit run" where
  "checkSettings settings =
     (if length (badSettings settings) > 0
      then (Inl (InvalidSettings (badSettings settings)), [])
      else (Inr (), []))"

subsection \<open>Hosted zone (lines 69 to 87)\<close>

definition route53Stage :: "env \<Rightarrow> json obj \<Rightarrow> string option run" where
  "route53Stage env settings =
     (case map_of settings ''route53Zone'' of
        None \<Rightarrow> (Inr None, [])
      | Some z \<Rightarrow>
          if truthy z then
            (case getHostedZone env z of
               None \<Rightarrow> (Inl HostedZoneUnavailable, [GetHostedZone z])
             | Some name \<Rightarrow> (Inr (Some (slice 0 (- 1) name)), [GetHostedZone z]))
          else (Inr None, []))"

subsection \<open>Regions (lines 89 to 105)\<close>

definition activeRegions :: "region_row list \<Rightarrow> string list" where
  "activeRegions rows =
     map RegionName
       (filter (\<lambda>r. OptInStatus r \<in> set [''opt-in-not-required'', ''opted-in'']) rows)"

definition regionStage :: "env \<Rightarrow> string list run" where
  "regionStage env =
     (case describeRegions env of
        None \<Rightarrow> (Inl RegionListUnavailable, [DescribeRegions])
      | Some rows \<Rightarrow> (Inr (activeRegions rows), [DescribeRegions]))"

subsection \<open>Quota codes (lines 109 to 120)\<close>

text \<open>
  The catalog \<^verbatim>\<open>jsonnet/gpu_instance_families.json\<close> is not part of the source: it is the
  field \<open>familiesFile\<close> of the environment. The reduction visits the entries in key order
  and appends a code that is not yet in the array.
\<close>

definition quotaCodes :: "family obj \<Rightarrow> string list" where
  "quotaCodes families =
     foldl (\<lambda>codes (name, fam).
              let code = quotaCode fam
              in if code \<notin> set codes then codes @ [code] else codes)
       [] families"

definition catalogStage :: "env \<Rightarrow> string list run" where
  "catalogStage env =
     (case familiesFile env of
        None \<Rightarrow> (Inl UncaughtRejection, [])
      | Some families \<Rightarrow> (Inr (quotaCodes families), []))"

subsection \<open>Quotas (lines 122 to 144)\<close>

text \<open>The pair of \<^verbatim>\<open>regionQuotas\<close> and \<^verbatim>\<open>maxQuota\<close>, which every callback updates.\<close>

type_synonym quota_state = "(string \<times> int) list obj \<times> int"

text \<open>Lines 134 to 137, for one row that passed the filter.\<close>

definition recordQuota :: "string \<Rightarrow> quota_row \<Rightarrow> quota_state \<Rightarrow> quota_state" where
  "recordQuota region q st =
     (case st of (regionQuotas, maxQuota) \<Rightarrow>
        (AList.update region
           (AList.update (QuotaCode q) (Value q)
              (case map_of regionQuotas region of None \<Rightarrow> [] | Some m \<Rightarrow> m))
           regionQuotas,
         if Value q > maxQuota then Value q else maxQuota))"

definition tracked :: "string list \<Rightarrow> quota_row list \<Rightarrow> quota_row list" where
  "tracked codes rows = filter (\<lambda>q. QuotaCode q \<in> set codes \<and> Value q > 0) rows"

text \<open>The callback of line 129 for the response of one region.\<close>

definition quotaThen :: "string list \<Rightarrow> string \<Rightarrow> quota_row list \<Rightarrow> quota_state \<Rightarrow> quota_state" where
  "quotaThen codes region rows st = fold (recordQuota region) (tracked codes rows) st"

text \<open>
  What happens when the promise for \<open>region\<close> settles: the callback of line 129 runs on
  the response; the callback of a rejected promise does not run.
\<close>

definition quotaSettled :: "env \<Rightarrow> string list \<Rightarrow> string \<Rightarrow> quota_state \<Rightarrow> quota_state" where
  "quotaSettled env codes region st =
     (case listServiceQuotas env region of
        None \<Rightarrow> st
      | Some rows \<Rightarrow> quotaThen codes region rows st)"

text \<open>The promises settle in the order \<open>order\<close>, starting from the empty object and 0.\<close>

definition settleQuotas :: "env \<Rightarrow> string list \<Rightarrow> string list \<Rightarrow> quota_state" where
  "settleQuotas env codes order = fold (quotaSettled env codes) order ([], 0)"

text \<open>
  All requests are issued first, in the order of the region list. \<^verbatim>\<open>Promise.all\<close>
  rejects when one of them rejects, and nothing catches that.
\<close>

definition quotaStage :: "env \<Rightarrow> string list \<Rightarrow> string list \<Rightarrow> quota_state run" where
  "quotaStage env codes rs =
     (if \<exists>r \<in> set rs. listServiceQuotas env r = None then Inl UncaughtRejection
      else Inr (settleQuotas env codes (sort_key (quotaLatency env) rs)),
      map ListServiceQuotas rs)"

subsection \<open>The quota gate (lines 146 to 153)\<close>

definition quotaGate :: "int \<Rightarrow> unit run" where
  "quotaGate maxQuota = (if maxQuota = 0 then (Inl ZeroQuota, []) else (Inr (), []))"

subsection \<open>Availability zones (lines 159 to 177)\<close>

definition zoneThen :: "string \<Rightarrow> zone_row list \<Rightarrow> string list obj \<Rightarrow> string list obj" where
  "zoneThen region rows azs =
     fold (\<lambda>a. AList.map_entry region (\<lambda>zs. zs @ [ZoneName a]))
       (filter (\<lambda>a. State a = ''available'') rows) azs"

definition zoneSettled :: "env \<Rightarrow> string \<Rightarrow> string list obj \<Rightarrow> string list obj" where
  "zoneSettled env region azs =
     (case describeAvailabilityZones env region of
        None \<Rightarrow> azs
      | Some rows \<Rightarrow> zoneThen region rows azs)"

definition settleZones :: "env \<Rightarrow> string list \<Rightarrow> string list obj \<Rightarrow> string list obj" where
  "settleZones env order azs = fold (zoneSettled env) order azs"

definition zoneStage :: "env \<Rightarrow> (string \<times> int) list obj \<Rightarrow> string list obj run" where
  "zoneStage env regionQuotas =
     (let keys = map fst regionQuotas;
          azs = fold (\<lambda>region azs. AList.update region [] azs) keys []
      in (if \<exists>r \<in> set keys. describeAvailabilityZones env r = None
          then Inl UncaughtRejection
          else Inr (settleZones env (sort_key (zoneLatency env) keys) azs),
          map DescribeAvailabilityZones keys))"

subsection \<open>Spot service-linked role (lines 181 to 192)\<close>

definition roleStage :: "env \<Rightarrow> bool run" where
  "roleStage env =
     (Inr (if getRole env ''AWSServiceRoleForEC2Spot'' then True else False),
      [GetRole ''AWSServiceRoleForEC2Spot''])"

subsection \<open>Export, render and apply (lines 194 to 220)\<close>

definition deployStage :: "env \<Rightarrow> validated_settings \<Rightarrow> unit run" where
  "deployStage env validatedSettings =
     (if \<not> renderOk env validatedSettings
      then (Inl RenderFailed, [Export validatedSettings, Render])
      else if \<not> applyOk env
      then (Inl ApplyFailed, [Export validatedSettings, Render, Write, Apply])
      else (Inr (), [Export validatedSettings, Render, Write, Apply]))"

subsection \<open>The pipeline\<close>

text \<open>
  Lines 27 to 144: everything up to the barrier \<^verbatim>\<open>await Promise.all(quotaPromises)\<close>. The
  result holds the local variables that the rest of the function reads.
\<close>

definition survey :: "env \<Rightarrow> (string option \<times> string list \<times> quota_state) run" where
  "survey env =
     andThen (readSettings env) (\<lambda>settings.
     andThen (authenticate env settings) (\<lambda>_.
     andThen (checkSettings settings) (\<lambda>_.
     andThen (route53Stage env settings) (\<lambda>dns.
     andThen (regionStage env) (\<lambda>rs.
     andThen (catalogStage env) (\<lambda>codes.
     andThen (quotaStage env codes rs) (\<lambda>st.
     (Inr (dns, rs, st), []))))))))"

text \<open>Lines 146 to 220.\<close>

definition deploy :: "env \<Rightarrow> string option \<times> string list \<times> quota_state \<Rightarrow> unit run" where
  "deploy env found =
     (case found of (dns, rs, regionQuotas, maxQuota) \<Rightarrow>
        andThen (quotaGate maxQuota) (\<lambda>_.
        andThen (zoneStage env regionQuotas) (\<lambda>azs.
        andThen (roleStage env) (\<lambda>slr.
        deployStage env
          \<lparr>dnsBaseName = dns, providerRegions = rs, quotas = regionQuotas,
           regions = azs, spotslr_exists = slr\<rparr>))))"

text \<open>\<open>Inr ()\<close> is \<^verbatim>\<open>return true\<close>.\<close>

definition generate :: "env \<Rightarrow> unit run" where
  "generate env = andThen (survey env) (deploy env)"

section \<open>The quota gate of the shell script\<close>

text \<open>
  The source file also holds \<^verbatim>\<open>deploy.sh\<close>, the deprecated earlier form of the pipeline.
  This is its quota gate (lines 463 to 510 of the file), given the number that
  \<^verbatim>\<open>MAXQVAL\<close> holds and the line read from the terminal. Each \<^verbatim>\<open>$EXIT 1\<close> is \<open>ShExit\<close>;
  \<open>ShContinue\<close> carries \<^verbatim>\<open>QUOTAWARN\<close>.
\<close>

datatype sh_result = ShExit | ShContinue bool

definition deploy_sh_quota_gate :: "int \<Rightarrow> string \<Rightarrow> sh_result" where
  "deploy_sh_quota_gate MAXQVAL key =
     (if MAXQVAL = 0 then ShExit
      else if MAXQVAL < 4 then ShExit
      else let QUOTAWARN = (MAXQVAL < 40)
           in if MAXQVAL = 1 then (if key \<noteq> ''Yes'' then ShExit else ShContinue QUOTAWARN)
              else ShContinue QUOTAWARN)"

section \<open>Reading the quota table\<close>

text \<open>\<^verbatim>\<open>regionQuotas[region]?.[code]\<close>: the value stored for a region and a code, if any.\<close>

definition quotaAt :: "(string \<times> int) list obj \<Rightarrow> string \<Rightarrow> string \<Rightarrow> int option" where
  "quotaAt regionQuotas region code =
     (case map_of regionQuotas region of None \<Rightarrow> None | Some m \<Rightarrow> map_of m code)"

text \<open>The rows that the callback of a region records: none when its promise rejects.\<close>

definition recorded :: "env \<Rightarrow> string list \<Rightarrow> string \<Rightarrow> quota_row list" where
  "recorded env codes region =
     (case listServiceQuotas env region of None \<Rightarrow> [] | Some rows \<Rightarrow> tracked codes rows)"

text \<open>The value of the last recorded row of a region for a code: a later row overwrites.\<close>

definition lastValue :: "env \<Rightarrow> string list \<Rightarrow> string \<Rightarrow> string \<Rightarrow> int option" where
  "lastValue env codes region =
     map_of (rev (map (\<lambda>q. (QuotaCode q, Value q)) (recorded env codes region)))"

text \<open>
  The keys of the table and of every object in it are distinct, as they are in a
  JavaScript object.
\<close>

definition wellFormed :: "(string \<times> int) list obj \<Rightarrow> bool" where
  "wellFormed rq \<longleftrightarrow> distinct (map fst rq) \<and> (\<forall>(r, m) \<in> set rq. distinct (map fst m))"

text \<open>
  The object that \<^verbatim>\<open>sonnetry.export\<close> receives when the survey found \<open>dns\<close>, \<open>rs\<close> and
  \<open>regionQuotas\<close> and every zone probe resolved.
\<close>

definition snapshot :: "env \<Rightarrow> string option \<Rightarrow> string list \<Rightarrow> (string \<times> int) list obj \<Rightarrow> validated_settings" where
  "snapshot env dns rs regionQuotas =
     \<lparr>dnsBaseName = dns, providerRegions = rs, quotas = regionQuotas,
      regions = settleZones env (sort_key (zoneLatency env) (map fst regionQuotas))
                  (fold (\<lambda>region azs. AList.update region [] azs) (map fst regionQuotas) []),
      spotslr_exists = getRole env ''AWSServiceRoleForEC2Spot''\<rparr>"

section \<open>Example environments\<close>

text \<open>
  An account with two usable regions, one of them with a quota of 8 for a tracked code, a
  hosted zone \<^verbatim>\<open>example.com.\<close> and no spot service-linked role.
\<close>

definition exampleFamilies :: "family obj" where
  "exampleFamilies =
     [(''g4dn'', \<lparr>quotaCode = ''codeA''\<rparr>), (''g5'', \<lparr>quotaCode = ''codeA''\<rparr>),
      (''p3'', \<lparr>quotaCode = ''codeB''\<rparr>)]"

definition exampleEnv :: env where
  "exampleEnv =
     \<lparr>settingsFile = Some [(''awsProfile'', JStr ''x''), (''route53Zone'', JStr ''Z123'')],
      authOk = True,
      getHostedZone = (\<lambda>z. if z = JStr ''Z123'' then Some ''example.com.'' else None),
      describeRegions =
        Some [\<lparr>RegionName = ''us-east-1'', OptInStatus = ''opt-in-not-required''\<rparr>,
              \<lparr>RegionName = ''ap-east-1'', OptInStatus = ''not-opted-in''\<rparr>,
              \<lparr>RegionName = ''us-west-2'', OptInStatus = ''opted-in''\<rparr>],
      familiesFile = Some exampleFamilies,
      listServiceQuotas =
        (\<lambda>r. if r = ''us-east-1''
              then Some [\<lparr>QuotaCode = ''codeA'', Value = 8\<rparr>,
                         \<lparr>QuotaCode = ''codeZ'', Value = 100\<rparr>,
                         \<lparr>QuotaCode = ''codeB'', Value = 0\<rparr>]
              else Some []),
      quotaLatency = (\<lambda>r. if r = ''us-east-1'' then 5 else 1),
      describeAvailabilityZones =
        (\<lambda>r. Some [\<lparr>ZoneName = r @ ''a'', State = ''available''\<rparr>,
                    \<lparr>ZoneName = r @ ''b'', State = ''impaired''\<rparr>]),
      zoneLatency = (\<lambda>r. 0),
      getRole = (\<lambda>n. False),
      renderOk = (\<lambda>vs. True),
      applyOk = True\<rparr>"

definition exampleTrace :: "event list" where
  "exampleTrace =
     [SetAwsProfile (JStr ''x''), Auth, GetHostedZone (JStr ''Z123''), DescribeRegions,
      ListServiceQuotas ''us-east-1'', ListServiceQuotas ''us-west-2'']"

text \<open>The settings of the example, and the object it exports.\<close>

definition exampleSettings :: "json obj" where
  "exampleSettings = [(''awsProfile'', JStr ''x''), (''route53Zone'', JStr ''Z123'')]"

definition exampleSnapshot :: validated_settings where
  "exampleSnapshot =
     \<lparr>dnsBaseName = Some ''example.com'',
      providerRegions = [''us-east-1'', ''us-west-2''],
      quotas = [(''us-east-1'', [(''codeA'', 8)])],
      regions = [(''us-east-1'', [''us-east-1a''])],
      spotslr_exists = False\<rparr>"

definition deployTrace :: "validated_settings \<Rightarrow> event list" where
  "deployTrace vs =
     exampleTrace @
     [DescribeAvailabilityZones ''us-east-1'', GetRole ''AWSServiceRoleForEC2Spot'',
      Export vs, Render, Write, Apply]"

text \<open>Every tracked quota is 0 in every region.\<close>

definition zeroQuotaEnv :: env where
  "zeroQuotaEnv =
     exampleEnv\<lparr>listServiceQuotas :=
       (\<lambda>r. Some [\<lparr>QuotaCode = ''codeA'', Value = 0\<rparr>, \<lparr>QuotaCode = ''codeZ'', Value = 100\<rparr>])\<rparr>"

text \<open>Two keys of the settings file are not allowed.\<close>

definition invalidSettingsEnv :: env where
  "invalidSettingsEnv =
     exampleEnv\<lparr>settingsFile :=
       Some [(''awsProfile'', JStr ''x''), (''useSAML'', JBool True),
             (''route53Zone'', JStr ''Z123''), (''dnsNames'', JArr [])]\<rparr>"

text \<open>The hosted zone's name comes back without the trailing dot.\<close>

definition undottedZoneEnv :: env where
  "undottedZoneEnv = exampleEnv\<lparr>getHostedZone := (\<lambda>z. Some ''example.com'')\<rparr>"

text \<open>The highest tracked quota of the account is 2, and 1.\<close>

definition lowQuotaEnv :: env where
  "lowQuotaEnv =
     exampleEnv\<lparr>listServiceQuotas :=
       (\<lambda>r. if r = ''us-east-1'' then Some [\<lparr>QuotaCode = ''codeA'', Value = 2\<rparr>] else Some [])\<rparr>"

definition singleQuotaEnv :: env where
  "singleQuotaEnv =
     exampleEnv\<lparr>listServiceQuotas :=
       (\<lambda>r. if r = ''us-east-1'' then Some [\<lparr>QuotaCode = ''codeA'', Value = 1\<rparr>] else Some [])\<rparr>"

section \<open>Sequencing\<close>

lemmas stage_defs =
  readSettings_def authenticate_def checkSettings_def badSettings_def allowedSettings_def
  route53Stage_def slice_def regionStage_def activeRegions_def catalogStage_def
  quotaCodes_def quotaStage_def settleQuotas_def quotaSettled_def quotaThen_def tracked_def
  recordQuota_def quotaGate_def zoneStage_def settleZones_def zoneSettled_def zoneThen_def
  roleStage_def deployStage_def

lemma andThen_cases:
  "andThen m k = (r, t) \<longleftrightarrow>
     (\<exists>e. m = (Inl e, t) \<and> r = Inl e) \<or>
     (\<exists>x t1 t2. m = (Inr x, t1) \<and> k x = (r, t2) \<and> t = t1 @ t2)"
  by (cases m) (auto simp: andThen_def split: sum.splits prod.splits)

lemma andThen_events:
  assumes "\<forall>e \<in> set (snd m). P e" and "\<And>x. \<forall>e \<in> set (snd (k x)). P e"
  shows "\<forall>e \<in> set (snd (andThen m k)). P e"
proof (cases m)
  case (Pair r t)
  show ?thesis
  proof (cases r)
    case (Inl f)
    with Pair assms(1) show ?thesis by (simp add: andThen_def)
  next
    case (Inr x)
    have "andThen m k = (fst (k x), t @ snd (k x))"
      using Pair Inr by (simp add: andThen_def split: prod.splits)
    with Pair assms(1) assms(2) [of x] show ?thesis by auto
  qed
qed

section \<open>The quota codes\<close>

lemma quotaCodes_acc:
  "set (foldl (\<lambda>codes (name, fam).
              let code = quotaCode fam
              in if code \<notin> set codes then codes @ [code] else codes) acc families)
    = set acc \<union> quotaCode ` snd ` set families"
  by (induction families arbitrary: acc) (auto simp: Let_def)

lemma quotaCodes_acc_distinct:
  "distinct acc \<Longrightarrow> distinct (foldl (\<lambda>codes (name, fam).
              let code = quotaCode fam
              in if code \<notin> set codes then codes @ [code] else codes) acc families)"
  by (induction families arbitrary: acc) (auto simp: Let_def)

lemma set_quotaCodes: "set (quotaCodes families) = quotaCode ` snd ` set families"
  by (simp add: quotaCodes_def quotaCodes_acc)

lemma distinct_quotaCodes: "distinct (quotaCodes families)"
  by (simp add: quotaCodes_def quotaCodes_acc_distinct)

section \<open>One recorded row\<close>

lemma recordQuota_snd: "snd (recordQuota r q st) = max (snd st) (Value q)"
  by (cases st) (simp add: recordQuota_def max_def)

lemma recordQuota_quotaAt:
  "quotaAt (fst (recordQuota r q st)) r' c =
     (if r' = r \<and> c = QuotaCode q then Some (Value q) else quotaAt (fst st) r' c)"
  by (cases st) (simp add: recordQuota_def quotaAt_def update_conv' split: option.splits)

lemma recordQuota_dom:
  "dom (map_of (fst (recordQuota r q st))) = insert r (dom (map_of (fst st)))"
  by (cases st) (simp add: recordQuota_def update_conv')

lemma recordQuota_distinct:
  "distinct (map fst (fst st)) \<Longrightarrow> distinct (map fst (fst (recordQuota r q st)))"
  by (cases st) (simp add: recordQuota_def distinct_update)

section \<open>The callback of one region\<close>

lemma fold_recordQuota_snd:
  "snd (fold (recordQuota r) qs st) = Max (insert (snd st) (Value ` set qs))"
proof (induction qs arbitrary: st)
  case Nil
  then show ?case by simp
next
  case (Cons q qs)
  have "Max (insert (max (snd st) (Value q)) (Value ` set qs))
        = Max (insert (snd st) (insert (Value q) (Value ` set qs)))"
    by (cases "set qs = {}") (simp_all add: max.assoc)
  then show ?case by (simp add: Cons.IH recordQuota_snd del: Max_insert)
qed

lemma fold_recordQuota_quotaAt:
  "quotaAt (fst (fold (recordQuota r) qs st)) r' c =
     (if r' = r
      then (case map_of (rev (map (\<lambda>q. (QuotaCode q, Value q)) qs)) c of
              None \<Rightarrow> quotaAt (fst st) r' c | Some v \<Rightarrow> Some v)
      else quotaAt (fst st) r' c)"
proof (induction qs arbitrary: st)
  case Nil
  then show ?case by simp
next
  case (Cons q qs)
  show ?case
    by (simp add: Cons.IH recordQuota_quotaAt map_add_def split: option.splits)
qed

lemma fold_recordQuota_dom:
  "dom (map_of (fst (fold (recordQuota r) qs st))) =
     (if qs = [] then {} else {r}) \<union> dom (map_of (fst st))"
  by (induction qs arbitrary: st) (auto simp: recordQuota_dom)

lemma fold_recordQuota_distinct:
  "distinct (map fst (fst st)) \<Longrightarrow> distinct (map fst (fst (fold (recordQuota r) qs st)))"
  by (induction qs arbitrary: st) (simp_all add: recordQuota_distinct)

lemma quotaSettled_fold:
  "quotaSettled env codes r st = fold (recordQuota r) (recorded env codes r) st"
  by (simp add: quotaSettled_def recorded_def quotaThen_def split: option.splits)

lemma quotaSettled_snd:
  "snd (quotaSettled env codes r st) = Max (insert (snd st) (Value ` set (recorded env codes r)))"
  by (simp only: quotaSettled_fold fold_recordQuota_snd)

lemma quotaSettled_dom:
  "dom (map_of (fst (quotaSettled env codes r st))) =
     (if recorded env codes r = [] then {} else {r}) \<union> dom (map_of (fst st))"
  by (simp only: quotaSettled_fold fold_recordQuota_dom)

lemma quotaSettled_quotaAt:
  "quotaAt (fst (quotaSettled env codes x st)) r c =
      (if r = x
       then (case lastValue env codes x c of None \<Rightarrow> quotaAt (fst st) r c | Some v \<Rightarrow> Some v)
       else quotaAt (fst st) r c)"
  by (simp only: quotaSettled_fold fold_recordQuota_quotaAt lastValue_def)

lemma quotaSettled_distinct:
  "distinct (map fst (fst st)) \<Longrightarrow> distinct (map fst (fst (quotaSettled env codes r st)))"
  by (simp only: quotaSettled_fold fold_recordQuota_distinct)

section \<open>All callbacks, in any order\<close>

lemma Max_insert_Max:
  assumes "finite A" "finite B"
  shows "Max (insert (Max (insert (a::int) A)) B) = Max (insert a (A \<union> B))"
proof (cases "B = {}")
  case True
  then show ?thesis by simp
next
  case False
  have "Max (insert a A \<union> B) = max (Max (insert a A)) (Max B)"
    by (rule Max_Un) (use assms False in simp_all)
  also have "\<dots> = Max (insert (Max (insert a A)) B)"
    using assms False by simp
  finally show ?thesis by simp
qed

lemma settle_snd:
  "snd (fold (quotaSettled env codes) order st) =
     Max (insert (snd st) (\<Union>r \<in> set order. Value ` set (recorded env codes r)))"
proof (induction order arbitrary: st)
  case Nil
  then show ?case by simp
next
  case (Cons r order)
  show ?case
    by (simp add: Cons.IH quotaSettled_snd Max_insert_Max del: Max_insert)
qed

lemma settle_dom:
  "dom (map_of (fst (fold (quotaSettled env codes) order st))) =
     {r \<in> set order. recorded env codes r \<noteq> []} \<union> dom (map_of (fst st))"
  by (induction order arbitrary: st) (auto simp: quotaSettled_dom split: if_splits)

lemma settle_quotaAt:
  "quotaAt (fst (fold (quotaSettled env codes) order st)) r c =
     (if r \<in> set order
      then (case lastValue env codes r c of None \<Rightarrow> quotaAt (fst st) r c | Some v \<Rightarrow> Some v)
      else quotaAt (fst st) r c)"
  by (induction order arbitrary: st) (simp_all add: quotaSettled_quotaAt split: option.splits)

lemma settle_distinct:
  "distinct (map fst (fst st)) \<Longrightarrow>
   distinct (map fst (fst (fold (quotaSettled env codes) order st)))"
  by (induction order arbitrary: st) (simp_all add: quotaSettled_distinct)

lemma quotaAt_Nil: "quotaAt [] r c = None"
  by (simp add: quotaAt_def)

lemma quotaAt_Some:
  "quotaAt rq r c = Some v \<longleftrightarrow> (\<exists>m. map_of rq r = Some m \<and> map_of m c = Some v)"
  by (simp add: quotaAt_def split: option.splits)

lemma settleQuotas_snd:
  "snd (settleQuotas env codes order) =
     Max (insert 0 (\<Union>r \<in> set order. Value ` set (recorded env codes r)))"
  by (simp add: settleQuotas_def settle_snd del: Max_insert)

lemma settleQuotas_dom:
  "fst ` set (fst (settleQuotas env codes order)) = {r \<in> set order. recorded env codes r \<noteq> []}"
  by (simp add: settleQuotas_def settle_dom flip: dom_map_of_conv_image_fst)

lemma settleQuotas_quotaAt:
  "quotaAt (fst (settleQuotas env codes order)) r c =
     (if r \<in> set order then lastValue env codes r c else None)"
  by (simp add: settleQuotas_def settle_quotaAt quotaAt_Nil split: option.splits)

lemma settleQuotas_distinct: "distinct (map fst (fst (settleQuotas env codes order)))"
  by (simp add: settleQuotas_def settle_distinct)

lemma recorded_Some:
  "listServiceQuotas env r = Some rows \<Longrightarrow>
   set (recorded env codes r) = {q \<in> set rows. QuotaCode q \<in> set codes \<and> 0 < Value q}"
  by (auto simp: recorded_def tracked_def)

lemma recorded_distinct:
  "listServiceQuotas env r = Some rows \<Longrightarrow> distinct (map QuotaCode rows) \<Longrightarrow>
   distinct (map QuotaCode (recorded env codes r))"
  by (simp add: recorded_def tracked_def distinct_map_filter)

lemma lastValue_SomeD:
  "lastValue env codes r c = Some v \<Longrightarrow>
   \<exists>q \<in> set (recorded env codes r). QuotaCode q = c \<and> Value q = v"
  by (auto simp: lastValue_def dest!: map_of_SomeD)

lemma lastValue_defined:
  assumes "q \<in> set (recorded env codes r)"
  shows "\<exists>v. lastValue env codes r (QuotaCode q) = Some v"
proof -
  from assms
  have "QuotaCode q \<in> fst ` set (rev (map (\<lambda>q. (QuotaCode q, Value q)) (recorded env codes r)))"
    by force
  then have "QuotaCode q \<in> dom (lastValue env codes r)"
    unfolding lastValue_def by (simp only: dom_map_of_conv_image_fst)
  then show ?thesis by blast
qed

lemma lastValue_distinct:
  assumes "distinct (map QuotaCode (recorded env codes r))"
  shows "lastValue env codes r c = Some v \<longleftrightarrow>
         (\<exists>q \<in> set (recorded env codes r). QuotaCode q = c \<and> Value q = v)"
proof -
  have "distinct (map fst (rev (map (\<lambda>q. (QuotaCode q, Value q)) (recorded env codes r))))"
    using assms by (simp add: rev_map [symmetric] comp_def)
  then show ?thesis
    unfolding lastValue_def by (auto simp: map_of_eq_Some_iff)
qed

lemma table_values:
  assumes "\<forall>r \<in> set order.
             \<exists>rows. listServiceQuotas env r = Some rows \<and> distinct (map QuotaCode rows)"
  shows "{v. \<exists>r c. quotaAt (fst (settleQuotas env codes order)) r c = Some v} =
         (\<Union>r \<in> set order. Value ` set (recorded env codes r))"
proof (intro set_eqI iffI)
  fix v
  assume "v \<in> {v. \<exists>r c. quotaAt (fst (settleQuotas env codes order)) r c = Some v}"
  then obtain r c where "r \<in> set order" "lastValue env codes r c = Some v"
    by (auto simp: settleQuotas_quotaAt split: if_splits)
  then show "v \<in> (\<Union>r \<in> set order. Value ` set (recorded env codes r))"
    using lastValue_SomeD by fastforce
next
  fix v
  assume "v \<in> (\<Union>r \<in> set order. Value ` set (recorded env codes r))"
  then obtain r q where r: "r \<in> set order"
    and q: "q \<in> set (recorded env codes r)" "v = Value q"
    by blast
  from r assms have "distinct (map QuotaCode (recorded env codes r))"
    using recorded_distinct by blast
  with q have "lastValue env codes r (QuotaCode q) = Some v"
    by (auto simp: lastValue_distinct)
  with r have "quotaAt (fst (settleQuotas env codes order)) r (QuotaCode q) = Some v"
    by (simp add: settleQuotas_quotaAt)
  then show "v \<in> {v. \<exists>r c. quotaAt (fst (settleQuotas env codes order)) r c = Some v}"
    by blast
qed

lemma settleQuotas_positive:
  assumes "r \<in> fst ` set (fst (settleQuotas env codes order))"
  shows "\<exists>c v. quotaAt (fst (settleQuotas env codes order)) r c = Some v \<and> 0 < v"
proof -
  from assms have r: "r \<in> set order" and ne: "recorded env codes r \<noteq> []"
    by (simp_all add: settleQuotas_dom)
  then obtain q where q: "q \<in> set (recorded env codes r)"
    by (cases "recorded env codes r") auto
  then obtain v where v: "lastValue env codes r (QuotaCode q) = Some v"
    using lastValue_defined by blast
  then obtain q' where "q' \<in> set (recorded env codes r)" "Value q' = v"
    using lastValue_SomeD by blast
  then have "0 < v" by (auto simp: recorded_def tracked_def split: option.splits)
  with r v show ?thesis by (auto simp: settleQuotas_quotaAt)
qed

section \<open>The survey\<close>

lemma survey_events: "\<forall>e \<in> set (snd (survey env)). \<not> isZoneProbe e \<and> \<not> isSinkCall e"
  unfolding survey_def
  apply (intro andThen_events)
  apply (auto simp: readSettings_def authenticate_def checkSettings_def route53Stage_def
      regionStage_def catalogStage_def quotaStage_def split: option.splits)
  done

lemma survey_Inr:
  assumes "survey env = (Inr (dns, rs, st), t)"
  shows "\<exists>settings t1 rows fams.
        settingsFile env = Some settings \<and> authOk env \<and> badSettings settings = [] \<and>
        route53Stage env settings = (Inr dns, t1) \<and>
        describeRegions env = Some rows \<and> rs = activeRegions rows \<and>
        familiesFile env = Some fams \<and>
        (\<forall>r \<in> set rs. listServiceQuotas env r \<noteq> None) \<and>
        st = settleQuotas env (quotaCodes fams) (sort_key (quotaLatency env) rs) \<and>
        t = snd (authenticate env settings) @ t1 @ [DescribeRegions] @ map ListServiceQuotas rs"
  using assms unfolding survey_def andThen_cases
  by (auto simp: readSettings_def authenticate_def checkSettings_def regionStage_def
      catalogStage_def quotaStage_def split: option.splits if_splits)

lemma survey_no_role: "\<forall>e \<in> set (snd (survey env)). \<forall>n. e \<noteq> GetRole n"
  unfolding survey_def
  apply (intro andThen_events)
  apply (auto simp: readSettings_def authenticate_def checkSettings_def route53Stage_def
      regionStage_def catalogStage_def quotaStage_def split: option.splits)
  done

section \<open>Distinct keys\<close>

lemma set_update_subset: "set (AList.update k v al) \<subseteq> insert (k, v) (set al)"
  by (induction al) auto

lemma recordQuota_wellFormed:
  assumes "wellFormed (fst st)"
  shows "wellFormed (fst (recordQuota r q st))"
proof -
  obtain rq mq where st: "st = (rq, mq)" by (cases st)
  define m where "m = (case map_of rq r of None \<Rightarrow> [] | Some m \<Rightarrow> m)"
  have "distinct (map fst m)"
    using assms unfolding m_def st wellFormed_def
    by (auto split: option.splits dest!: map_of_SomeD)
  then have new: "distinct (map fst (AList.update (QuotaCode q) (Value q) m))"
    by (rule distinct_update)
  have rq': "fst (recordQuota r q st) = AList.update r (AList.update (QuotaCode q) (Value q) m) rq"
    by (simp add: st recordQuota_def m_def)
  have "\<forall>(r, m) \<in> set (fst (recordQuota r q st)). distinct (map fst m)"
    unfolding rq' using set_update_subset [of r _ rq] new assms
    unfolding st wellFormed_def by fastforce
  moreover have "distinct (map fst (fst (recordQuota r q st)))"
    using assms recordQuota_distinct [of st r q] by (simp add: wellFormed_def)
  ultimately show ?thesis by (simp add: wellFormed_def)
qed

lemma fold_recordQuota_wellFormed:
  "wellFormed (fst st) \<Longrightarrow> wellFormed (fst (fold (recordQuota r) qs st))"
  by (induction qs arbitrary: st) (simp_all add: recordQuota_wellFormed)

lemma quotaSettled_wellFormed:
  "wellFormed (fst st) \<Longrightarrow> wellFormed (fst (quotaSettled env codes r st))"
  by (simp only: quotaSettled_fold fold_recordQuota_wellFormed)

lemma settle_wellFormed:
  "wellFormed (fst st) \<Longrightarrow> wellFormed (fst (fold (quotaSettled env codes) order st))"
  by (induction order arbitrary: st) (simp_all add: quotaSettled_wellFormed)

lemma settleQuotas_wellFormed: "wellFormed (fst (settleQuotas env codes order))"
  unfolding settleQuotas_def by (rule settle_wellFormed) (simp add: wellFormed_def)

lemma wellFormed_entry:
  assumes "wellFormed rq"
  shows "(r, m) \<in> set rq \<and> (c, v) \<in> set m \<longleftrightarrow>
         map_of rq r = Some m \<and> map_of m c = Some v"
  using assms unfolding wellFormed_def by (auto dest: map_of_SomeD)

section \<open>After the survey\<close>

lemma slice_drop_last: "slice 0 (- 1) s = butlast s"
  by (simp add: slice_def Let_def butlast_conv_take nat_diff_distrib' max_def)

lemma deploy_zero: "deploy env (dns, rs, rq, 0) = (Inl ZeroQuota, [])"
  by (simp add: deploy_def quotaGate_def andThen_def)

lemma deploy_nonzero:
  assumes "mq \<noteq> 0"
  shows "deploy env (dns, rs, rq, mq) =
     (if \<exists>r \<in> set (map fst rq). describeAvailabilityZones env r = None
      then (Inl UncaughtRejection, map DescribeAvailabilityZones (map fst rq))
      else (fst (deployStage env (snapshot env dns rs rq)),
            map DescribeAvailabilityZones (map fst rq) @
            [GetRole ''AWSServiceRoleForEC2Spot''] @
            snd (deployStage env (snapshot env dns rs rq))))"
  using assms
  by (simp add: deploy_def quotaGate_def andThen_def zoneStage_def roleStage_def Let_def
      snapshot_def split: prod.splits)

lemma deployStage_events:
  "set (snd (deployStage env vs)) \<subseteq> {Export vs, Render, Write, Apply}"
  "Export vs \<in> set (snd (deployStage env vs))"
  by (auto simp: deployStage_def)

lemma deployStage_fst:
  "fst (deployStage env vs) =
     (if \<not> renderOk env vs then Inl RenderFailed
      else if \<not> applyOk env then Inl ApplyFailed else Inr ())"
  by (simp add: deployStage_def)

lemma survey_cases:
  obtains (stopped) f where "fst (survey env) = Inl f" "generate env = (Inl f, snd (survey env))"
    "f \<noteq> ZeroQuota"
  | (surveyed) dns rs rq mq t where "survey env = (Inr (dns, rs, rq, mq), t)"
      "generate env = (fst (deploy env (dns, rs, rq, mq)), t @ snd (deploy env (dns, rs, rq, mq)))"
proof (cases "survey env")
  case (Pair r t)
  show ?thesis
  proof (cases r)
    case (Inl f)
    have "f \<noteq> ZeroQuota"
      using Pair Inl unfolding survey_def andThen_cases
      by (auto simp: readSettings_def authenticate_def checkSettings_def route53Stage_def
          regionStage_def catalogStage_def quotaStage_def split: option.splits if_splits)
    with Pair Inl stopped show ?thesis by (simp add: generate_def andThen_def)
  next
    case (Inr x)
    obtain dns rs rq mq where "x = (dns, rs, rq, mq)" by (cases x) auto
    with Pair Inr surveyed show ?thesis
      by (simp add: generate_def andThen_def split: prod.splits)
  qed
qed

lemma generate_Export:
  assumes "Export vs \<in> set (snd (generate env))"
  obtains dns rs rq mq t where "survey env = (Inr (dns, rs, rq, mq), t)" "mq \<noteq> 0"
    "\<forall>r \<in> set (map fst rq). describeAvailabilityZones env r \<noteq> None"
    "vs = snapshot env dns rs rq"
    "generate env =
       (fst (deployStage env vs),
        t @ map DescribeAvailabilityZones (map fst rq) @
        [GetRole ''AWSServiceRoleForEC2Spot''] @ snd (deployStage env vs))"
proof (cases env rule: survey_cases)
  case (stopped f)
  with assms survey_events [of env] show ?thesis by auto
next
  case (surveyed dns rs rq mq t)
  have noexp: "Export vs \<notin> set t"
    using survey_events [of env] surveyed(1) by auto
  show ?thesis
  proof (cases "mq = 0")
    case True
    with assms surveyed noexp show ?thesis by (simp add: deploy_zero)
  next
    case False
    note d = deploy_nonzero [OF False, of env dns rs rq]
    show ?thesis
    proof (cases "\<exists>r \<in> set (map fst rq). describeAvailabilityZones env r = None")
      case True
      with assms surveyed noexp d show ?thesis by auto
    next
      case nofail: False
      let ?vs = "snapshot env dns rs rq"
      from nofail d have d': "deploy env (dns, rs, rq, mq) =
        (fst (deployStage env ?vs),
            map DescribeAvailabilityZones (map fst rq) @
            [GetRole ''AWSServiceRoleForEC2Spot''] @ snd (deployStage env ?vs))"
        by simp
      have "Export vs \<in> set (snd (deployStage env ?vs))"
        using assms surveyed(2) noexp unfolding d' by auto
      then have "vs = ?vs" using deployStage_events(1) [of env ?vs] by auto
      with that [OF surveyed(1) False _ this] nofail surveyed(2) d' show ?thesis
        by auto
    qed
  qed
qed

lemma route53Stage_Some:
  assumes "map_of settings ''route53Zone'' = Some z" "truthy z" "getHostedZone env z = Some name"
  shows "route53Stage env settings = (Inr (Some (butlast name)), [GetHostedZone z])"
  using assms by (simp add: route53Stage_def slice_drop_last)

lemma generate_Export_dns:
  assumes "Export vs \<in> set (snd (generate env))" "settingsFile env = Some settings"
  shows "route53Stage env settings = (Inr (dnsBaseName vs), snd (route53Stage env settings))"
proof -
  from assms(1) obtain dns rs rq mq t where s: "survey env = (Inr (dns, rs, rq, mq), t)"
    and vs: "vs = snapshot env dns rs rq" by (rule generate_Export)
  from survey_Inr [OF s] assms(2) obtain t1 where "route53Stage env settings = (Inr dns, t1)"
    by auto
  then show ?thesis by (simp add: vs snapshot_def)
qed

section \<open>The zone map\<close>

lemma map_entry_keys: "map fst (AList.map_entry k f xs) = map fst xs"
  by (induction xs) auto

lemma zoneThen_keys: "map fst (zoneThen r rows azs) = map fst azs"
proof -
  have "map fst (fold (\<lambda>a. AList.map_entry r (\<lambda>zs. zs @ [ZoneName a])) as azs) = map fst azs"
    for as
    by (induction as arbitrary: azs) (simp_all add: map_entry_keys)
  then show ?thesis by (simp add: zoneThen_def)
qed

lemma zoneSettled_keys: "map fst (zoneSettled env r azs) = map fst azs"
  by (simp add: zoneSettled_def zoneThen_keys split: option.splits)

lemma settleZones_keys: "map fst (settleZones env order azs) = map fst azs"
  unfolding settleZones_def
  by (induction order arbitrary: azs) (simp_all add: zoneSettled_keys)

lemma empty_zone_lists_keys:
  "distinct ks \<Longrightarrow> set ks \<inter> set (map fst acc) = {} \<Longrightarrow>
   map fst (fold (\<lambda>region azs. AList.update region [] azs) ks acc) = map fst acc @ ks"
proof (induction ks arbitrary: acc)
  case Nil
  then show ?case by simp
next
  case (Cons k ks)
  have "map fst (AList.update k [] acc) = map fst acc @ [k]"
    using Cons.prems by (simp add: update_keys)
  moreover have "set ks \<inter> set (map fst (AList.update k [] acc)) = {}"
    using Cons.prems by (auto simp: dom_update)
  ultimately show ?case using Cons.IH [of "AList.update k [] acc"] Cons.prems by simp
qed

lemma snapshot_region_keys:
  "distinct (map fst rq) \<Longrightarrow> map fst (regions (snapshot env dns rs rq)) = map fst rq"
  by (simp add: snapshot_def settleZones_keys empty_zone_lists_keys)

lemma generate_zone_probes:
  assumes "DescribeAvailabilityZones r \<in> set (snd (generate env))"
  obtains dns rs rq mq t where "survey env = (Inr (dns, rs, rq, mq), t)" "mq \<noteq> 0"
    "{r. DescribeAvailabilityZones r \<in> set (snd (generate env))} = set (map fst rq)"
proof (cases env rule: survey_cases)
  case (stopped f)
  with assms survey_events [of env] show ?thesis by auto
next
  case (surveyed dns rs rq mq t)
  have nozone: "DescribeAvailabilityZones r \<notin> set t" for r
    using survey_events [of env] surveyed(1) by auto
  show ?thesis
  proof (cases "mq = 0")
    case True
    with assms surveyed nozone show ?thesis by (simp add: deploy_zero)
  next
    case False
    have "{r. DescribeAvailabilityZones r \<in> set (snd (generate env))} = set (map fst rq)"
      using nozone deployStage_events(1) [of env "snapshot env dns rs rq"]
      unfolding surveyed(2) deploy_nonzero [OF False] by auto
    with that [OF surveyed(1) False] show ?thesis .
  qed
qed

lemma survey_positive_keys:
  assumes "survey env = (Inr (dns, rs, rq, mq), t)"
  shows "set (map fst rq) = {r \<in> set rs. \<exists>m c v. (r, m) \<in> set rq \<and> (c, v) \<in> set m \<and> 0 < v}"
    and "distinct (map fst rq)"
proof -
  from survey_Inr [OF assms] obtain codes order
    where st: "settleQuotas env codes order = (rq, mq)" and order: "set order = set rs"
    by (metis set_sort)
  have wf: "wellFormed rq" using settleQuotas_wellFormed [of env codes order] by (simp add: st)
  then show "distinct (map fst rq)" by (simp add: wellFormed_def)
  have keys: "fst ` set rq = {r \<in> set rs. recorded env codes r \<noteq> []}"
    using settleQuotas_dom [of env codes order] by (simp add: st order)
  have pos: "\<exists>m c v. (r, m) \<in> set rq \<and> (c, v) \<in> set m \<and> 0 < v" if "r \<in> fst ` set rq" for r
  proof -
    from settleQuotas_positive [of r env codes order] that
    obtain c v where "quotaAt rq r c = Some v" "0 < v" by (auto simp: st)
    then obtain m where "map_of rq r = Some m" "map_of m c = Some v" "0 < v"
      by (auto simp: quotaAt_Some)
    then show ?thesis using wellFormed_entry [OF wf] by blast
  qed
  show "set (map fst rq) = {r \<in> set rs. \<exists>m c v. (r, m) \<in> set rq \<and> (c, v) \<in> set m \<and> 0 < v}"
  proof (intro set_eqI iffI)
    fix r assume "r \<in> set (map fst rq)"
    then have "r \<in> fst ` set rq" by simp
    with keys pos show "r \<in> {r \<in> set rs. \<exists>m c v. (r, m) \<in> set rq \<and> (c, v) \<in> set m \<and> 0 < v}"
      by blast
  next
    fix r assume "r \<in> {r \<in> set rs. \<exists>m c v. (r, m) \<in> set rq \<and> (c, v) \<in> set m \<and> 0 < v}"
    then show "r \<in> set (map fst rq)" by force
  qed
qed

lemma survey_no_positive:
  assumes "survey env = (Inr (dns, rs, rq, mq), t)"
    and "familiesFile env = Some families"
    and "\<forall>r \<in> set rs. \<forall>rows. listServiceQuotas env r = Some rows \<longrightarrow>
           (\<forall>q \<in> set rows. QuotaCode q \<in> quotaCode ` snd ` set families \<longrightarrow> Value q \<le> 0)"
  shows "mq = 0"
proof -
  define codes where "codes = quotaCodes families"
  define order where "order = sort_key (quotaLatency env) rs"
  from survey_Inr [OF assms(1)] assms(2)
  have st: "settleQuotas env codes order = (rq, mq)"
    by (auto simp: codes_def order_def)
  have codes: "set codes = quotaCode ` snd ` set families"
    by (simp add: codes_def set_quotaCodes)
  have "recorded env codes r = []" if r: "r \<in> set rs" for r
  proof (cases "listServiceQuotas env r")
    case None
    then show ?thesis by (simp add: recorded_def)
  next
    case (Some rows)
    from assms(3) r Some
    have le: "\<forall>q \<in> set rows. QuotaCode q \<in> set codes \<longrightarrow> Value q \<le> 0"
      unfolding codes by blast
    have "\<not> (QuotaCode q \<in> set codes \<and> 0 < Value q)" if "q \<in> set rows" for q
      using le that by force
    then show ?thesis
      by (simp add: recorded_def tracked_def Some filter_empty_conv)
  qed
  then have "(\<Union>r \<in> set order. Value ` set (recorded env codes r)) = {}"
    by (simp add: order_def)
  with settleQuotas_snd [of env codes order] show ?thesis by (simp add: st)
qed

section \<open>The shell script stops below the minimum\<close>

lemma deploy_sh_below_minimum: "m < 4 \<Longrightarrow> deploy_sh_quota_gate m key = ShExit"
  by (simp add: deploy_sh_quota_gate_def)

lemma deploy_sh_continues: "deploy_sh_quota_gate m key = ShContinue w \<longleftrightarrow> 4 \<le> m \<and> w = (m < 40)"
  by (auto simp: deploy_sh_quota_gate_def Let_def)

section \<open>The example runs\<close>

lemmas example_defs =
  exampleEnv_def exampleFamilies_def exampleTrace_def exampleSettings_def exampleSnapshot_def
  deployTrace_def

lemmas run_defs = generate_def survey_def deploy_def andThen_def stage_defs

lemma survey_exampleEnv:
  "survey exampleEnv =
     (Inr (Some ''example.com'', [''us-east-1'', ''us-west-2''],
           [(''us-east-1'', [(''codeA'', 8)])], 8), exampleTrace)"
  by (simp add: survey_def andThen_def exampleEnv_def exampleFamilies_def exampleTrace_def
      stage_defs)

lemma generate_exampleEnv: "generate exampleEnv = (Inr (), deployTrace exampleSnapshot)"
  by (simp add: run_defs example_defs)

lemma generate_undottedZoneEnv:
  "generate undottedZoneEnv =
     (Inr (), deployTrace (exampleSnapshot\<lparr>dnsBaseName := Some ''example.co''\<rparr>))"
  by (simp add: run_defs example_defs undottedZoneEnv_def)

lemma survey_zeroQuotaEnv:
  "survey zeroQuotaEnv =
     (Inr (Some ''example.com'', [''us-east-1'', ''us-west-2''], [], 0), exampleTrace)"
  by (simp add: run_defs example_defs zeroQuotaEnv_def)

section \<open>Claims\<close>

text \<open>
  Claim C1. After all quota probes have settled, \<^verbatim>\<open>maxQuota\<close> is the maximum quota value
  observed over every region of the region list and every tracked quota code when some
  observed value is positive, and 0 otherwise; the quota table is empty exactly when no
  region reports a positive tracked quota, and then \<^verbatim>\<open>maxQuota\<close> is 0. When no response
  lists a quota code twice, \<^verbatim>\<open>maxQuota\<close> is also the maximum of the values stored in the
  quota table (0 for the empty table). The order in which the probes settle is arbitrary.
\<close>

theorem maxQuota_maximum_observed:
  assumes "survey env = (Inr (dns, rs, regionQuotas, maxQuota), t)"
    and "familiesFile env = Some families"
  defines "observed \<equiv>
     {Value q | r rows q. r \<in> set rs \<and> listServiceQuotas env r = Some rows \<and>
                q \<in> set rows \<and> QuotaCode q \<in> quotaCode ` snd ` set families}"
  shows "(if \<exists>v \<in> observed. 0 < v then maxQuota = Max observed else maxQuota = 0) \<and>
         (regionQuotas = [] \<longleftrightarrow> \<not> (\<exists>v \<in> observed. 0 < v)) \<and>
         (regionQuotas = [] \<longrightarrow> maxQuota = 0) \<and>
         ((\<forall>r \<in> set rs. \<forall>rows. listServiceQuotas env r = Some rows \<longrightarrow>
              distinct (map QuotaCode rows)) \<longrightarrow>
          maxQuota =
            Max (insert 0 {v. \<exists>r m c. map_of regionQuotas r = Some m \<and> map_of m c = Some v}))"
proof -
  define codes where "codes = quotaCodes families"
  define order where "order = sort_key (quotaLatency env) rs"
  define P where "P = (\<Union>r \<in> set order. Value ` set (recorded env codes r))"
  from survey_Inr [OF assms(1)] assms(2)
  have resp: "\<forall>r \<in> set rs. listServiceQuotas env r \<noteq> None"
    and st: "settleQuotas env codes order = (regionQuotas, maxQuota)"
    by (auto simp: codes_def order_def)
  have order: "set order = set rs" by (simp add: order_def)
  have codes: "set codes = quotaCode ` snd ` set families"
    by (simp add: codes_def set_quotaCodes)
  have P: "P = {v \<in> observed. 0 < v}"
  proof -
    have "P = (\<Union>r \<in> set rs. Value ` set (recorded env codes r))"
      by (simp add: P_def order)
    also have "\<dots> = {v \<in> observed. 0 < v}"
    proof (intro set_eqI iffI)
      fix v
      assume "v \<in> (\<Union>r \<in> set rs. Value ` set (recorded env codes r))"
      then obtain r q where r: "r \<in> set rs" and q: "q \<in> set (recorded env codes r)"
        and v: "v = Value q" by blast
      from r resp obtain rows where rows: "listServiceQuotas env r = Some rows" by blast
      from q have "q \<in> set rows" "QuotaCode q \<in> set codes" "0 < Value q"
        by (simp_all add: recorded_Some [OF rows])
      with r rows v show "v \<in> {v \<in> observed. 0 < v}"
        unfolding observed_def codes by blast
    next
      fix v
      assume "v \<in> {v \<in> observed. 0 < v}"
      then obtain r rows q where r: "r \<in> set rs"
        and rows: "listServiceQuotas env r = Some rows"
        and q: "q \<in> set rows" "QuotaCode q \<in> set codes" and v: "v = Value q" "0 < v"
        unfolding observed_def codes by blast
      then have "q \<in> set (recorded env codes r)"
        by (simp add: recorded_Some [OF rows])
      with r v show "v \<in> (\<Union>r \<in> set rs. Value ` set (recorded env codes r))" by blast
    qed
    finally show ?thesis .
  qed
  have finP: "finite P" by (simp add: P_def)
  have "observed \<subseteq>
        (\<Union>r \<in> set rs. \<Union>rows \<in> set_option (listServiceQuotas env r). Value ` set rows)"
    unfolding observed_def by force
  then have finO: "finite observed" by (rule finite_subset) simp
  have mq: "maxQuota = Max (insert 0 P)"
    using settleQuotas_snd [of env codes order] by (simp add: st P_def del: Max_insert)
  have keys: "fst ` set regionQuotas = {r \<in> set order. recorded env codes r \<noteq> []}"
    using settleQuotas_dom [of env codes order] by (simp add: st)
  have empty: "regionQuotas = [] \<longleftrightarrow> P = {}"
  proof -
    have "regionQuotas = [] \<longleftrightarrow> fst ` set regionQuotas = {}" by simp
    also have "\<dots> \<longleftrightarrow> P = {}" unfolding keys P_def by auto
    finally show ?thesis .
  qed
  have first: "if \<exists>v \<in> observed. 0 < v then maxQuota = Max observed else maxQuota = 0"
  proof (cases "\<exists>v \<in> observed. 0 < v")
    case True
    then have ne: "P \<noteq> {}" by (auto simp: P)
    have pos: "0 < Max P" using ne finP Max_in [of P] by (auto simp: P)
    have "Max observed \<in> observed" using True finO by (intro Max_in) auto
    moreover have "0 < Max observed"
      using True finO by (meson Max_ge less_le_trans)
    ultimately have "Max observed \<in> P" by (simp add: P)
    then have "Max observed \<le> Max P" using finP by simp
    moreover have "Max P \<le> Max observed"
      by (rule Max_mono) (use ne finO in \<open>auto simp: P\<close>)
    ultimately have "Max P = Max observed" by simp
    moreover have "Max (insert 0 P) = Max P"
      using ne finP pos by simp
    ultimately show ?thesis using True mq by simp
  next
    case False
    then have "P = {}" by (auto simp: P)
    with False mq show ?thesis by simp
  qed
  have second: "regionQuotas = [] \<longleftrightarrow> \<not> (\<exists>v \<in> observed. 0 < v)"
    unfolding empty by (auto simp: P)
  have third: "regionQuotas = [] \<longrightarrow> maxQuota = 0"
    using first second by (auto split: if_splits)
  have fourth: "maxQuota =
      Max (insert 0 {v. \<exists>r m c. map_of regionQuotas r = Some m \<and> map_of m c = Some v})"
    if dist: "\<forall>r \<in> set rs. \<forall>rows. listServiceQuotas env r = Some rows \<longrightarrow>
                distinct (map QuotaCode rows)"
  proof -
    have "\<forall>r \<in> set order.
            \<exists>rows. listServiceQuotas env r = Some rows \<and> distinct (map QuotaCode rows)"
      using resp dist order by fastforce
    from table_values [OF this, of codes]
    have "{v. \<exists>r c. quotaAt regionQuotas r c = Some v} = P"
      by (simp add: st P_def)
    moreover have "{v. \<exists>r m c. map_of regionQuotas r = Some m \<and> map_of m c = Some v} =
                   {v. \<exists>r c. quotaAt regionQuotas r c = Some v}"
      by (auto simp: quotaAt_Some)
    ultimately have "{v. \<exists>r m c. map_of regionQuotas r = Some m \<and> map_of m c = Some v} = P"
      by simp
    with mq show ?thesis by simp
  qed
  from first second third fourth show ?thesis by blast
qed

text \<open>The example account: one region reports 8 for a tracked code.\<close>

theorem maxQuota_maximum_observed_witness:
  "survey exampleEnv =
     (Inr (Some ''example.com'', [''us-east-1'', ''us-west-2''],
           [(''us-east-1'', [(''codeA'', 8)])], 8), exampleTrace) \<and>
   familiesFile exampleEnv = Some exampleFamilies \<and>
   (8::int) =
     Max {Value q | r rows q. r \<in> set [''us-east-1'', ''us-west-2''] \<and>
            listServiceQuotas exampleEnv r = Some rows \<and> q \<in> set rows \<and>
            QuotaCode q \<in> quotaCode ` snd ` set exampleFamilies} \<and>
   (8::int) = Max (insert 0 {v. \<exists>r m c. map_of [(''us-east-1'', [(''codeA'', 8)])] r = Some m \<and>
                                map_of m c = Some v})"
proof -
  have h1: "survey exampleEnv =
     (Inr (Some ''example.com'', [''us-east-1'', ''us-west-2''],
           [(''us-east-1'', [(''codeA'', 8)])], 8), exampleTrace)"
    by (rule survey_exampleEnv)
  have h2: "familiesFile exampleEnv = Some exampleFamilies"
    by (simp add: exampleEnv_def)
  have h3: "\<forall>r \<in> set [''us-east-1'', ''us-west-2'']. \<forall>rows.
      listServiceQuotas exampleEnv r = Some rows \<longrightarrow> distinct (map QuotaCode rows)"
    by (auto simp: exampleEnv_def)
  have h4: "\<exists>v \<in> {Value q | r rows q. r \<in> set [''us-east-1'', ''us-west-2''] \<and>
            listServiceQuotas exampleEnv r = Some rows \<and> q \<in> set rows \<and>
            QuotaCode q \<in> quotaCode ` snd ` set exampleFamilies}. 0 < v"
  proof (rule bexI [where x = 8])
    show "(0::int) < 8" by simp
    have "\<exists>r rows q. (8::int) = Value q \<and> r \<in> set [''us-east-1'', ''us-west-2''] \<and>
            listServiceQuotas exampleEnv r = Some rows \<and> q \<in> set rows \<and>
            QuotaCode q \<in> quotaCode ` snd ` set exampleFamilies"
      apply (rule exI [where x = "''us-east-1''"])
      apply (rule exI [where x = "[\<lparr>QuotaCode = ''codeA'', Value = 8\<rparr>,
                         \<lparr>QuotaCode = ''codeZ'', Value = 100\<rparr>,
                         \<lparr>QuotaCode = ''codeB'', Value = 0\<rparr>]"])
      apply (rule exI [where x = "\<lparr>QuotaCode = ''codeA'', Value = 8\<rparr>"])
      apply (simp add: exampleEnv_def exampleFamilies_def)
      done
    then show "8 \<in> {Value q | r rows q. r \<in> set [''us-east-1'', ''us-west-2''] \<and>
            listServiceQuotas exampleEnv r = Some rows \<and> q \<in> set rows \<and>
            QuotaCode q \<in> quotaCode ` snd ` set exampleFamilies}"
      by simp
  qed
  note c = maxQuota_maximum_observed [OF h1 h2]
  have c1: "(8::int) =
     Max {Value q | r rows q. r \<in> set [''us-east-1'', ''us-west-2''] \<and>
            listServiceQuotas exampleEnv r = Some rows \<and> q \<in> set rows \<and>
            QuotaCode q \<in> quotaCode ` snd ` set exampleFamilies}"
    using c [THEN conjunct1] unfolding if_P [OF h4] .
  have c4: "(8::int) =
     Max (insert 0 {v. \<exists>r m c. map_of [(''us-east-1'', [(''codeA'', 8)])] r = Some m \<and>
                                map_of m c = Some v})"
    using c [THEN conjunct2, THEN conjunct2, THEN conjunct2] h3 by (rule mp)
  from h1 h2 c1 c4 show ?thesis by (intro conjI)
qed

text \<open>
  Claim C2. \<^verbatim>\<open>generate\<close> fails with \<open>ZeroQuota\<close> exactly when the survey ends with
  \<^verbatim>\<open>maxQuota\<close> equal to 0. Its calls are then those of the survey: no availability-zone
  probe, no role lookup, and no call to the template engine, so no settings object is
  exported, rendered, written or applied. In particular, when the survey completes and all
  regions report no value above 0 for every tracked quota code, \<^verbatim>\<open>maxQuota\<close> is 0 and the
  run fails with \<open>ZeroQuota\<close>.
\<close>

theorem zero_quota_stops:
  "((\<exists>dns rs regionQuotas t. survey env = (Inr (dns, rs, regionQuotas, 0), t)) \<longleftrightarrow>
      fst (generate env) = Inl ZeroQuota) \<and>
   (\<forall>dns rs regionQuotas t. survey env = (Inr (dns, rs, regionQuotas, 0), t) \<longrightarrow>
      generate env = (Inl ZeroQuota, t) \<and>
      (\<forall>e \<in> set t. \<not> isZoneProbe e \<and> \<not> isSinkCall e \<and>
                    e \<noteq> GetRole ''AWSServiceRoleForEC2Spot'')) \<and>
   (\<forall>dns rs regionQuotas maxQuota t families.
      survey env = (Inr (dns, rs, regionQuotas, maxQuota), t) \<and>
      familiesFile env = Some families \<and>
      (\<forall>r \<in> set rs. \<forall>rows. listServiceQuotas env r = Some rows \<longrightarrow>
         (\<forall>q \<in> set rows. QuotaCode q \<in> quotaCode ` snd ` set families \<longrightarrow> Value q \<le> 0)) \<longrightarrow>
      maxQuota = 0 \<and> fst (generate env) = Inl ZeroQuota)"
proof -
  have run: "generate env = (Inl ZeroQuota, t)"
    if "survey env = (Inr (dns, rs, rq, 0), t)" for dns rs rq t
    by (simp add: generate_def andThen_def that deploy_zero)
  have calls: "\<forall>e \<in> set t. \<not> isZoneProbe e \<and> \<not> isSinkCall e \<and>
                    e \<noteq> GetRole ''AWSServiceRoleForEC2Spot''"
    if s: "survey env = (Inr (dns, rs, rq, 0), t)" for dns rs rq t
  proof
    fix e assume e: "e \<in> set t"
    then have "e \<in> set (snd (survey env))" by (simp add: s)
    with survey_events [of env] survey_no_role [of env]
    show "\<not> isZoneProbe e \<and> \<not> isSinkCall e \<and> e \<noteq> GetRole ''AWSServiceRoleForEC2Spot''"
      by blast
  qed
  have iff: "(\<exists>dns rs rq t. survey env = (Inr (dns, rs, rq, 0), t)) \<longleftrightarrow>
      fst (generate env) = Inl ZeroQuota"
  proof (cases env rule: survey_cases)
    case (stopped f)
    then show ?thesis by auto
  next
    case (surveyed dns rs rq mq t)
    show ?thesis
    proof (cases "mq = 0")
      case True
      with surveyed(1) have "survey env = (Inr (dns, rs, rq, 0), t)" by simp
      moreover from run [OF this] have "fst (generate env) = Inl ZeroQuota" by simp
      ultimately show ?thesis by blast
    next
      case False
      have "fst (deploy env (dns, rs, rq, mq)) \<noteq> Inl ZeroQuota"
        by (simp add: deploy_nonzero [OF False] deployStage_fst)
      then have "fst (generate env) \<noteq> Inl ZeroQuota" by (simp add: surveyed(2))
      moreover have "\<not> (\<exists>dns rs rq t. survey env = (Inr (dns, rs, rq, 0), t))"
        using False by (simp add: surveyed(1))
      ultimately show ?thesis by blast
    qed
  qed
  have scenario: "maxQuota = 0 \<and> fst (generate env) = Inl ZeroQuota"
    if s: "survey env = (Inr (dns, rs, rq, maxQuota), t)"
      and f: "familiesFile env = Some families"
      and z: "\<forall>r \<in> set rs. \<forall>rows. listServiceQuotas env r = Some rows \<longrightarrow>
         (\<forall>q \<in> set rows. QuotaCode q \<in> quotaCode ` snd ` set families \<longrightarrow> Value q \<le> 0)"
    for dns rs rq maxQuota t families
  proof -
    have m: "maxQuota = 0" by (rule survey_no_positive [OF s f z])
    have "survey env = (Inr (dns, rs, rq, 0), t)" using s by (simp only: m)
    then have "generate env = (Inl ZeroQuota, t)" by (rule run)
    then have "fst (generate env) = Inl ZeroQuota" by simp
    with m show ?thesis by (intro conjI)
  qed
  show ?thesis
  proof (intro conjI allI impI)
    show "(\<exists>dns rs regionQuotas t. survey env = (Inr (dns, rs, regionQuotas, 0), t)) \<longleftrightarrow>
      fst (generate env) = Inl ZeroQuota" by (rule iff)
  next
    fix dns rs regionQuotas t
    assume s: "survey env = (Inr (dns, rs, regionQuotas, 0), t)"
    show "generate env = (Inl ZeroQuota, t)" by (rule run [OF s])
    show "\<forall>e \<in> set t. \<not> isZoneProbe e \<and> \<not> isSinkCall e \<and>
                    e \<noteq> GetRole ''AWSServiceRoleForEC2Spot''" by (rule calls [OF s])
  next
    fix dns rs regionQuotas maxQuota t families
    assume a: "survey env = (Inr (dns, rs, regionQuotas, maxQuota), t) \<and>
      familiesFile env = Some families \<and>
      (\<forall>r \<in> set rs. \<forall>rows. listServiceQuotas env r = Some rows \<longrightarrow>
         (\<forall>q \<in> set rows. QuotaCode q \<in> quotaCode ` snd ` set families \<longrightarrow> Value q \<le> 0))"
    note c = scenario [OF a [THEN conjunct1] a [THEN conjunct2, THEN conjunct1]
        a [THEN conjunct2, THEN conjunct2]]
    from c show "maxQuota = 0" by (rule conjunct1)
    from c show "fst (generate env) = Inl ZeroQuota" by (rule conjunct2)
  qed
qed

text \<open>An account whose tracked quotas are all 0.\<close>

theorem zero_quota_stops_witness:
  "survey zeroQuotaEnv =
     (Inr (Some ''example.com'', [''us-east-1'', ''us-west-2''], [], 0), exampleTrace) \<and>
   familiesFile zeroQuotaEnv = Some exampleFamilies \<and>
   generate zeroQuotaEnv = (Inl ZeroQuota, exampleTrace) \<and>
   DescribeAvailabilityZones ''us-east-1'' \<notin> set exampleTrace \<and>
   fst (generate zeroQuotaEnv) = Inl ZeroQuota"
proof -
  note h = survey_zeroQuotaEnv
  have f: "familiesFile zeroQuotaEnv = Some exampleFamilies"
    by (simp add: zeroQuotaEnv_def exampleEnv_def)
  have z: "\<forall>r \<in> set [''us-east-1'', ''us-west-2'']. \<forall>rows.
      listServiceQuotas zeroQuotaEnv r = Some rows \<longrightarrow>
      (\<forall>q \<in> set rows. QuotaCode q \<in> quotaCode ` snd ` set exampleFamilies \<longrightarrow> Value q \<le> 0)"
    by (auto simp: zeroQuotaEnv_def exampleFamilies_def)
  note c = zero_quota_stops [of zeroQuotaEnv]
  from c [THEN conjunct2, THEN conjunct1, rule_format, OF h]
  have g: "generate zeroQuotaEnv = (Inl ZeroQuota, exampleTrace)"
    and "\<forall>e \<in> set exampleTrace. \<not> isZoneProbe e \<and> \<not> isSinkCall e \<and>
           e \<noteq> GetRole ''AWSServiceRoleForEC2Spot''"
    by blast+
  then have nz: "DescribeAvailabilityZones ''us-east-1'' \<notin> set exampleTrace" by auto
  from c [THEN conjunct2, THEN conjunct2] h f z
  have "fst (generate zeroQuotaEnv) = Inl ZeroQuota" by blast
  with h f g nz show ?thesis by (intro conjI)
qed

text \<open>
  Claim C3. In every exported settings object, the keys of the zone map \<open>regions\<close> are the
  keys of \<open>quotas\<close>, in the same order, and they are exactly the regions of
  \<open>providerRegions\<close> with a positive value recorded in \<open>quotas\<close>; the availability-zone
  probes of the run are the ones for these regions. In every run, also one that exports
  nothing, a zone probe is issued only for a region of the region list with a positive
  value recorded in the quota table.
\<close>

theorem zone_map_keys:
  "(\<forall>vs. Export vs \<in> set (snd (generate env)) \<longrightarrow>
      set (map fst (regions vs)) =
        {r \<in> set (providerRegions vs).
           \<exists>m c v. (r, m) \<in> set (quotas vs) \<and> (c, v) \<in> set m \<and> 0 < v} \<and>
      map fst (regions vs) = map fst (quotas vs) \<and>
      {r. DescribeAvailabilityZones r \<in> set (snd (generate env))} = set (map fst (regions vs))) \<and>
   (\<forall>r. DescribeAvailabilityZones r \<in> set (snd (generate env)) \<longrightarrow>
      (\<exists>dns rs regionQuotas maxQuota t.
         survey env = (Inr (dns, rs, regionQuotas, maxQuota), t) \<and> r \<in> set rs \<and>
         (\<exists>m c v. (r, m) \<in> set regionQuotas \<and> (c, v) \<in> set m \<and> 0 < v)))"
proof (intro conjI allI impI)
  fix vs
  assume e: "Export vs \<in> set (snd (generate env))"
  then obtain dns rs rq mq t where s: "survey env = (Inr (dns, rs, rq, mq), t)"
    and vs: "vs = snapshot env dns rs rq"
    and g: "generate env =
       (fst (deployStage env vs),
        t @ map DescribeAvailabilityZones (map fst rq) @
        [GetRole ''AWSServiceRoleForEC2Spot''] @ snd (deployStage env vs))"
    by (rule generate_Export)
  note k = survey_positive_keys [OF s]
  have fields: "providerRegions vs = rs" "quotas vs = rq"
    by (simp_all add: vs snapshot_def)
  show same: "map fst (regions vs) = map fst (quotas vs)"
    unfolding fields unfolding vs by (rule snapshot_region_keys [OF k(2)])
  show "set (map fst (regions vs)) =
        {r \<in> set (providerRegions vs).
           \<exists>m c v. (r, m) \<in> set (quotas vs) \<and> (c, v) \<in> set m \<and> 0 < v}"
    unfolding same unfolding fields by (rule k(1))
  have nozone: "DescribeAvailabilityZones r \<notin> set t" for r
    using survey_events [of env] s by auto
  have "{r. DescribeAvailabilityZones r \<in> set (snd (generate env))} = set (map fst rq)"
    using nozone deployStage_events(1) [of env vs] unfolding g by auto
  then show "{r. DescribeAvailabilityZones r \<in> set (snd (generate env))} =
             set (map fst (regions vs))"
    unfolding same fields .
next
  fix r
  assume z: "DescribeAvailabilityZones r \<in> set (snd (generate env))"
  then obtain dns rs rq mq t where s: "survey env = (Inr (dns, rs, rq, mq), t)"
    and probes: "{r. DescribeAvailabilityZones r \<in> set (snd (generate env))} = set (map fst rq)"
    by (rule generate_zone_probes)
  from z probes have "r \<in> set (map fst rq)" by blast
  with survey_positive_keys(1) [OF s] s
  show "\<exists>dns rs regionQuotas maxQuota t.
         survey env = (Inr (dns, rs, regionQuotas, maxQuota), t) \<and> r \<in> set rs \<and>
         (\<exists>m c v. (r, m) \<in> set regionQuotas \<and> (c, v) \<in> set m \<and> 0 < v)"
    by blast
qed

text \<open>The example account: only one of the two regions has a quota.\<close>

theorem zone_map_keys_witness:
  "Export exampleSnapshot \<in> set (snd (generate exampleEnv)) \<and>
   map fst (regions exampleSnapshot) = [''us-east-1''] \<and>
   {r. DescribeAvailabilityZones r \<in> set (snd (generate exampleEnv))} = {''us-east-1''} \<and>
   {r \<in> set (providerRegions exampleSnapshot).
      \<exists>m c v. (r, m) \<in> set (quotas exampleSnapshot) \<and> (c, v) \<in> set m \<and> 0 < v} = {''us-east-1''}"
proof -
  have e: "Export exampleSnapshot \<in> set (snd (generate exampleEnv))"
    by (simp add: generate_exampleEnv deployTrace_def)
  have k: "map fst (regions exampleSnapshot) = [''us-east-1'']"
    by (simp add: exampleSnapshot_def)
  from zone_map_keys [of exampleEnv] e
  have "set (map fst (regions exampleSnapshot)) =
        {r \<in> set (providerRegions exampleSnapshot).
           \<exists>m c v. (r, m) \<in> set (quotas exampleSnapshot) \<and> (c, v) \<in> set m \<and> 0 < v}"
    and "{r. DescribeAvailabilityZones r \<in> set (snd (generate exampleEnv))} =
         set (map fst (regions exampleSnapshot))"
    by blast+
  then have "{r \<in> set (providerRegions exampleSnapshot).
           \<exists>m c v. (r, m) \<in> set (quotas exampleSnapshot) \<and> (c, v) \<in> set m \<and> 0 < v} = {''us-east-1''}"
    and "{r. DescribeAvailabilityZones r \<in> set (snd (generate exampleEnv))} = {''us-east-1''}"
    unfolding k by simp_all
  with e k show ?thesis by (intro conjI)
qed

text \<open>
  Claim C4. When the settings file has a key outside \<open>allowedSettings\<close>, and the
  authentication that precedes the check succeeds, \<^verbatim>\<open>generate\<close> fails with
  \<open>InvalidSettings\<close> naming exactly the keys outside the list, in the order of the file.
  When the authentication throws, the run ends there. In both cases the only calls made are
  setting the profile and authenticating: no hosted-zone lookup, region list, quota list,
  zone list or role lookup, and no call to the template engine.
\<close>

theorem invalid_settings_rejected:
  assumes "settingsFile env = Some settings"
    and "\<exists>k \<in> set (map fst settings). k \<notin> set allowedSettings"
  shows "(authOk env \<longrightarrow>
            fst (generate env) =
              Inl (InvalidSettings (filter (\<lambda>k. k \<notin> set allowedSettings) (map fst settings)))) \<and>
         (\<not> authOk env \<longrightarrow> fst (generate env) = Inl UncaughtRejection) \<and>
         set (filter (\<lambda>k. k \<notin> set allowedSettings) (map fst settings)) =
           {k \<in> fst ` set settings. k \<notin> set allowedSettings} \<and>
         snd (generate env) = snd (authenticate env settings) \<and>
         (\<forall>e \<in> set (snd (generate env)). \<not> isCapabilityProbe e \<and> \<not> isSinkCall e)"
proof -
  from assms(2) have bad: "badSettings settings \<noteq> []"
    by (auto simp: badSettings_def filter_empty_conv)
  have g: "generate env =
      (if authOk env then Inl (InvalidSettings (badSettings settings)) else Inl UncaughtRejection,
       snd (authenticate env settings))"
    using assms(1) bad
    by (simp add: generate_def survey_def andThen_def readSettings_def checkSettings_def
        authenticate_def split: option.splits)
  have ev: "\<forall>e \<in> set (snd (authenticate env settings)). \<not> isCapabilityProbe e \<and> \<not> isSinkCall e"
    by (auto simp: authenticate_def split: option.splits)
  from g ev show ?thesis by (auto simp: badSettings_def)
qed

text \<open>A settings file with the two keys useSAML and dnsNames.\<close>

theorem invalid_settings_rejected_witness:
  "settingsFile invalidSettingsEnv =
     Some [(''awsProfile'', JStr ''x''), (''useSAML'', JBool True),
           (''route53Zone'', JStr ''Z123''), (''dnsNames'', JArr [])] \<and>
   fst (generate invalidSettingsEnv) = Inl (InvalidSettings [''useSAML'', ''dnsNames'']) \<and>
   snd (generate invalidSettingsEnv) = [SetAwsProfile (JStr ''x''), Auth]"
proof -
  let ?settings = "[(''awsProfile'', JStr ''x''), (''useSAML'', JBool True),
           (''route53Zone'', JStr ''Z123''), (''dnsNames'', JArr [])]"
  have h1: "settingsFile invalidSettingsEnv = Some ?settings"
    by (simp add: invalidSettingsEnv_def)
  have h2: "\<exists>k \<in> set (map fst ?settings). k \<notin> set allowedSettings"
    by (simp add: allowedSettings_def)
  have h3: "authOk invalidSettingsEnv"
    by (simp add: invalidSettingsEnv_def exampleEnv_def)
  note c = invalid_settings_rejected [OF h1 h2]
  from c h3 have "fst (generate invalidSettingsEnv) =
      Inl (InvalidSettings (filter (\<lambda>k. k \<notin> set allowedSettings) (map fst ?settings)))"
    by blast
  then have c1: "fst (generate invalidSettingsEnv) = Inl (InvalidSettings [''useSAML'', ''dnsNames''])"
    by (simp add: allowedSettings_def)
  from c have "snd (generate invalidSettingsEnv) = snd (authenticate invalidSettingsEnv ?settings)"
    by blast
  then have c2: "snd (generate invalidSettingsEnv) = [SetAwsProfile (JStr ''x''), Auth]"
    by (simp add: authenticate_def)
  from h1 c1 c2 show ?thesis by (intro conjI)
qed

text \<open>
  Claim C5, at an account whose highest tracked quota is 2. The claim asks for a fatal
  failure below the minimum of 4, as the shell script has it. \<^verbatim>\<open>generate\<close> tests
  \<^verbatim>\<open>maxQuota == 0\<close> only: the run passes the gate, probes the zones, exports the settings
  and returns true.
\<close>

theorem quota_below_minimum_deploys:
  "survey lowQuotaEnv =
     (Inr (Some ''example.com'', [''us-east-1'', ''us-west-2''],
           [(''us-east-1'', [(''codeA'', 2)])], 2), exampleTrace) \<and>
   generate lowQuotaEnv =
     (Inr (), deployTrace (exampleSnapshot\<lparr>quotas := [(''us-east-1'', [(''codeA'', 2)])]\<rparr>))"
  by (simp add: run_defs example_defs lowQuotaEnv_def)

text \<open>
  Claim C6, at an account whose highest tracked quota is 1. The claim asks for an explicit
  confirmation before the run proceeds. \<^verbatim>\<open>generate\<close> reads no confirmation: the run
  passes the gate, probes the zones, exports the settings and returns true. The shell
  script never proceeds at 1.
\<close>

theorem single_unit_quota_deploys_unconfirmed:
  "survey singleQuotaEnv =
     (Inr (Some ''example.com'', [''us-east-1'', ''us-west-2''],
           [(''us-east-1'', [(''codeA'', 1)])], 1), exampleTrace) \<and>
   generate singleQuotaEnv =
     (Inr (), deployTrace (exampleSnapshot\<lparr>quotas := [(''us-east-1'', [(''codeA'', 1)])]\<rparr>))"
  by (simp add: run_defs example_defs singleQuotaEnv_def)

text \<open>
  Claim C7. After the survey, every entry of the quota table belongs to a region of the
  region list and comes from a row of that region's response whose code is in the catalog's
  code list and whose value is greater than 0. A region is a key of the table exactly when
  its response has such a row, so a region without a positive tracked quota is no key at
  all; every such row has an entry for its code. The code list has no duplicates and holds
  exactly the codes of the catalog. Keys are distinct, in the table and in each of its
  objects.
\<close>

theorem quota_table_entries:
  assumes "survey env = (Inr (dns, rs, regionQuotas, maxQuota), t)"
    and "familiesFile env = Some families"
  shows "(\<forall>r m c v. (r, m) \<in> set regionQuotas \<and> (c, v) \<in> set m \<longrightarrow>
            r \<in> set rs \<and> c \<in> set (quotaCodes families) \<and> 0 < v \<and>
            (\<exists>rows q. listServiceQuotas env r = Some rows \<and> q \<in> set rows \<and>
                       QuotaCode q = c \<and> Value q = v)) \<and>
         (\<forall>r. r \<in> set (map fst regionQuotas) \<longleftrightarrow>
            r \<in> set rs \<and>
            (\<exists>rows q. listServiceQuotas env r = Some rows \<and> q \<in> set rows \<and>
                       QuotaCode q \<in> set (quotaCodes families) \<and> 0 < Value q)) \<and>
         (\<forall>r rows q. r \<in> set rs \<and> listServiceQuotas env r = Some rows \<and> q \<in> set rows \<and>
            QuotaCode q \<in> set (quotaCodes families) \<and> 0 < Value q \<longrightarrow>
            (\<exists>m v. (r, m) \<in> set regionQuotas \<and> (QuotaCode q, v) \<in> set m)) \<and>
         distinct (quotaCodes families) \<and>
         set (quotaCodes families) = quotaCode ` snd ` set families \<and>
         distinct (map fst regionQuotas) \<and>
         (\<forall>m \<in> snd ` set regionQuotas. distinct (map fst m))"
proof -
  define codes where "codes = quotaCodes families"
  define order where "order = sort_key (quotaLatency env) rs"
  from survey_Inr [OF assms(1)] assms(2)
  have resp: "\<forall>r \<in> set rs. listServiceQuotas env r \<noteq> None"
    and st: "settleQuotas env codes order = (regionQuotas, maxQuota)"
    by (auto simp: codes_def order_def)
  have order: "set order = set rs" by (simp add: order_def)
  have wf: "wellFormed regionQuotas"
    using settleQuotas_wellFormed [of env codes order] by (simp add: st)
  have at: "quotaAt regionQuotas r c = (if r \<in> set rs then lastValue env codes r c else None)"
    for r c
    using settleQuotas_quotaAt [of env codes order r c] by (simp add: st order)
  have keys: "fst ` set regionQuotas = {r \<in> set rs. recorded env codes r \<noteq> []}"
    using settleQuotas_dom [of env codes order] by (simp add: st order)
  have entry: "(r, m) \<in> set regionQuotas \<and> (c, v) \<in> set m \<longleftrightarrow>
               quotaAt regionQuotas r c = Some v \<and> map_of regionQuotas r = Some m" for r m c v
    using wellFormed_entry [OF wf] by (auto simp: quotaAt_Some)
  have sound: "r \<in> set rs \<and> c \<in> set codes \<and> 0 < v \<and>
            (\<exists>rows q. listServiceQuotas env r = Some rows \<and> q \<in> set rows \<and>
                       QuotaCode q = c \<and> Value q = v)"
    if "(r, m) \<in> set regionQuotas" "(c, v) \<in> set m" for r m c v
  proof -
    from that have "quotaAt regionQuotas r c = Some v" using entry [of r m c v] by blast
    then have r: "r \<in> set rs" and lv: "lastValue env codes r c = Some v"
      by (simp_all add: at split: if_splits)
    from r resp obtain rows where rows: "listServiceQuotas env r = Some rows" by blast
    from lastValue_SomeD [OF lv] obtain q where "q \<in> set (recorded env codes r)"
      "QuotaCode q = c" "Value q = v" by blast
    with r rows show ?thesis by (auto simp: recorded_Some [OF rows])
  qed
  have key: "r \<in> set (map fst regionQuotas) \<longleftrightarrow>
            r \<in> set rs \<and>
            (\<exists>rows q. listServiceQuotas env r = Some rows \<and> q \<in> set rows \<and>
                       QuotaCode q \<in> set codes \<and> 0 < Value q)" for r
  proof (cases "r \<in> set rs")
    case True
    with resp obtain rows where rows: "listServiceQuotas env r = Some rows" by blast
    have "recorded env codes r \<noteq> [] \<longleftrightarrow> set (recorded env codes r) \<noteq> {}" by simp
    also have "\<dots> \<longleftrightarrow> (\<exists>q. q \<in> set rows \<and> QuotaCode q \<in> set codes \<and> 0 < Value q)"
      unfolding recorded_Some [OF rows] by blast
    finally show ?thesis using True rows keys by auto
  next
    case False
    then show ?thesis using keys by auto
  qed
  have complete: "\<exists>m v. (r, m) \<in> set regionQuotas \<and> (QuotaCode q, v) \<in> set m"
    if "r \<in> set rs" "listServiceQuotas env r = Some rows" "q \<in> set rows"
       "QuotaCode q \<in> set codes" "0 < Value q" for r rows q
  proof -
    from that have "q \<in> set (recorded env codes r)" by (simp add: recorded_Some)
    then obtain v where "lastValue env codes r (QuotaCode q) = Some v"
      using lastValue_defined by blast
    with that(1) have "quotaAt regionQuotas r (QuotaCode q) = Some v" by (simp add: at)
    then obtain m where "map_of regionQuotas r = Some m" "map_of m (QuotaCode q) = Some v"
      by (auto simp: quotaAt_Some)
    then show ?thesis using wellFormed_entry [OF wf] by blast
  qed
  have d1: "distinct (map fst regionQuotas)" using wf by (simp add: wellFormed_def)
  have d2: "\<forall>m \<in> snd ` set regionQuotas. distinct (map fst m)"
    using wf by (auto simp: wellFormed_def)
  from sound key complete d1 d2 distinct_quotaCodes [of families] set_quotaCodes [of families]
  show ?thesis unfolding codes_def by blast
qed

text \<open>The example account: the entry for codeA in us-east-1, and no key us-west-2.\<close>

theorem quota_table_entries_witness:
  "survey exampleEnv =
     (Inr (Some ''example.com'', [''us-east-1'', ''us-west-2''],
           [(''us-east-1'', [(''codeA'', 8)])], 8), exampleTrace) \<and>
   familiesFile exampleEnv = Some exampleFamilies \<and>
   quotaCodes exampleFamilies = [''codeA'', ''codeB''] \<and>
   ''codeA'' \<in> set (quotaCodes exampleFamilies) \<and>
   (\<exists>rows q. listServiceQuotas exampleEnv ''us-east-1'' = Some rows \<and> q \<in> set rows \<and>
              QuotaCode q = ''codeA'' \<and> Value q = 8) \<and>
   ''us-west-2'' \<notin> set (map fst [(''us-east-1'', [(''codeA'', 8 :: int)])])"
proof -
  note h1 = survey_exampleEnv
  have h2: "familiesFile exampleEnv = Some exampleFamilies"
    by (simp add: exampleEnv_def)
  have codes: "quotaCodes exampleFamilies = [''codeA'', ''codeB'']"
    by (simp add: quotaCodes_def exampleFamilies_def)
  note c = quota_table_entries [OF h1 h2]
  have entry: "(''us-east-1'', [(''codeA'', 8)]) \<in> set [(''us-east-1'', [(''codeA'', 8 :: int)])] \<and>
               (''codeA'', 8) \<in> set [(''codeA'', 8 :: int)]"
    by simp
  from c [THEN conjunct1, rule_format, OF entry]
  have "''codeA'' \<in> set (quotaCodes exampleFamilies)"
    and "\<exists>rows q. listServiceQuotas exampleEnv ''us-east-1'' = Some rows \<and> q \<in> set rows \<and>
              QuotaCode q = ''codeA'' \<and> Value q = 8"
    by blast+
  moreover have "''us-west-2'' \<notin> set (map fst [(''us-east-1'', [(''codeA'', 8 :: int)])])"
    by simp
  ultimately show ?thesis using h1 h2 codes by (intro conjI)
qed

text \<open>
  Claim C8. When the settings request a hosted zone and the lookup returns a name that ends
  in a dot, the hosted-zone stage stores the name without that one character, and every
  exported settings object has it as \<open>dnsBaseName\<close>.
\<close>

theorem dns_trailing_dot_removed:
  assumes "settingsFile env = Some settings"
    and "map_of settings ''route53Zone'' = Some z" and "truthy z"
    and "getHostedZone env z = Some (base @ ''.'')"
  shows "route53Stage env settings = (Inr (Some base), [GetHostedZone z]) \<and>
         (\<forall>vs. Export vs \<in> set (snd (generate env)) \<longrightarrow> dnsBaseName vs = Some base)"
proof -
  have r: "route53Stage env settings = (Inr (Some base), [GetHostedZone z])"
    using route53Stage_Some [OF assms(2,3,4)] by simp
  moreover have "dnsBaseName vs = Some base" if "Export vs \<in> set (snd (generate env))" for vs
    using generate_Export_dns [OF that assms(1)] r by simp
  ultimately show ?thesis by blast
qed

text \<open>The example account: example.com. becomes example.com.\<close>

theorem dns_trailing_dot_removed_witness:
  "getHostedZone exampleEnv (JStr ''Z123'') = Some (''example.com'' @ ''.'') \<and>
   route53Stage exampleEnv exampleSettings =
     (Inr (Some ''example.com''), [GetHostedZone (JStr ''Z123'')]) \<and>
   Export exampleSnapshot \<in> set (snd (generate exampleEnv)) \<and>
   dnsBaseName exampleSnapshot = Some ''example.com''"
proof -
  have h1: "settingsFile exampleEnv = Some exampleSettings"
    by (simp add: example_defs)
  have h2: "map_of exampleSettings ''route53Zone'' = Some (JStr ''Z123'')"
    by (simp add: example_defs)
  have h3: "truthy (JStr ''Z123'')" by simp
  have h4: "getHostedZone exampleEnv (JStr ''Z123'') = Some (''example.com'' @ ''.'')"
    by (simp add: example_defs)
  have e: "Export exampleSnapshot \<in> set (snd (generate exampleEnv))"
    by (simp add: generate_exampleEnv deployTrace_def)
  note c = dns_trailing_dot_removed [OF h1 h2 h3 h4]
  from c e have "dnsBaseName exampleSnapshot = Some ''example.com''" by blast
  with c h4 e show ?thesis by blast
qed

text \<open>
  Claim C9. In every exported settings object, \<open>spotslr_exists\<close> is true exactly when the
  lookup of the role \<^verbatim>\<open>AWSServiceRoleForEC2Spot\<close> succeeded, and the lookup was made. A run
  that makes the lookup goes on to export the settings whatever the lookup returns, and its
  outcome depends on rendering and applying only.
\<close>

theorem spot_role_flag:
  "(\<forall>vs. Export vs \<in> set (snd (generate env)) \<longrightarrow>
      spotslr_exists vs = getRole env ''AWSServiceRoleForEC2Spot'' \<and>
      GetRole ''AWSServiceRoleForEC2Spot'' \<in> set (snd (generate env))) \<and>
   (\<forall>n. GetRole n \<in> set (snd (generate env)) \<longrightarrow>
      n = ''AWSServiceRoleForEC2Spot'' \<and>
      (\<exists>vs. Export vs \<in> set (snd (generate env)) \<and>
            fst (generate env) =
              (if \<not> renderOk env vs then Inl RenderFailed
               else if \<not> applyOk env then Inl ApplyFailed else Inr ())))"
proof (intro conjI allI impI)
  fix vs
  assume e: "Export vs \<in> set (snd (generate env))"
  then show "spotslr_exists vs = getRole env ''AWSServiceRoleForEC2Spot''"
    by (rule generate_Export) (simp add: snapshot_def)
  from e show "GetRole ''AWSServiceRoleForEC2Spot'' \<in> set (snd (generate env))"
    by (rule generate_Export) simp
next
  fix n
  assume role: "GetRole n \<in> set (snd (generate env))"
  have "n = ''AWSServiceRoleForEC2Spot'' \<and>
      (\<exists>vs. Export vs \<in> set (snd (generate env)) \<and>
            fst (generate env) =
              (if \<not> renderOk env vs then Inl RenderFailed
               else if \<not> applyOk env then Inl ApplyFailed else Inr ()))"
  proof (cases env rule: survey_cases)
    case (stopped f)
    with role survey_no_role [of env] show ?thesis by auto
  next
    case (surveyed dns rs rq mq t)
    have norole: "GetRole n \<notin> set t"
      using survey_no_role [of env] surveyed(1) by auto
    show ?thesis
    proof (cases "mq = 0")
      case True
      with role surveyed norole show ?thesis by (simp add: deploy_zero)
    next
      case False
      note d = deploy_nonzero [OF False, of env dns rs rq]
      show ?thesis
      proof (cases "\<exists>r \<in> set (map fst rq). describeAvailabilityZones env r = None")
        case True
        with role surveyed norole d show ?thesis by auto
      next
        case nofail: False
        let ?vs = "snapshot env dns rs rq"
        from nofail d have d': "deploy env (dns, rs, rq, mq) =
          (fst (deployStage env ?vs),
              map DescribeAvailabilityZones (map fst rq) @
              [GetRole ''AWSServiceRoleForEC2Spot''] @ snd (deployStage env ?vs))"
          by simp
        have "n = ''AWSServiceRoleForEC2Spot''"
          using role surveyed(2) norole deployStage_events(1) [of env ?vs] unfolding d' by auto
        moreover have "Export ?vs \<in> set (snd (generate env))"
          using surveyed(2) deployStage_events(2) [of ?vs env] unfolding d' by simp
        moreover have "fst (generate env) = fst (deployStage env ?vs)"
          using surveyed(2) unfolding d' by simp
        ultimately show ?thesis unfolding deployStage_fst by blast
      qed
    qed
  qed
  then show "n = ''AWSServiceRoleForEC2Spot''"
    and "\<exists>vs. Export vs \<in> set (snd (generate env)) \<and>
            fst (generate env) =
              (if \<not> renderOk env vs then Inl RenderFailed
               else if \<not> applyOk env then Inl ApplyFailed else Inr ())"
    by blast+
qed

text \<open>The example account has no such role: the flag is false and the run returns true.\<close>

theorem spot_role_flag_witness:
  "getRole exampleEnv ''AWSServiceRoleForEC2Spot'' = False \<and>
   Export exampleSnapshot \<in> set (snd (generate exampleEnv)) \<and>
   spotslr_exists exampleSnapshot = False \<and>
   GetRole ''AWSServiceRoleForEC2Spot'' \<in> set (snd (generate exampleEnv)) \<and>
   fst (generate exampleEnv) = Inr ()"
proof -
  have h: "getRole exampleEnv ''AWSServiceRoleForEC2Spot'' = False"
    by (simp add: example_defs)
  have e: "Export exampleSnapshot \<in> set (snd (generate exampleEnv))"
    by (simp add: generate_exampleEnv deployTrace_def)
  from spot_role_flag [of exampleEnv] e
  have "spotslr_exists exampleSnapshot = getRole exampleEnv ''AWSServiceRoleForEC2Spot''"
    and r: "GetRole ''AWSServiceRoleForEC2Spot'' \<in> set (snd (generate exampleEnv))"
    by blast+
  then have "spotslr_exists exampleSnapshot = False" by (simp only: h)
  moreover have "fst (generate exampleEnv) = Inr ()" by (simp add: generate_exampleEnv)
  ultimately show ?thesis using h e r by (intro conjI)
qed

text \<open>
  Claim C10. Whatever name the hosted-zone lookup returns, the stored \<open>dnsBaseName\<close> is the
  name without its last character: nothing tests that the character is a dot.
\<close>

theorem dns_last_character_dropped:
  assumes "settingsFile env = Some settings"
    and "map_of settings ''route53Zone'' = Some z" and "truthy z"
    and "getHostedZone env z = Some name"
  shows "route53Stage env settings = (Inr (Some (butlast name)), [GetHostedZone z]) \<and>
         (\<forall>vs. Export vs \<in> set (snd (generate env)) \<longrightarrow>
            dnsBaseName vs = Some (butlast name))"
proof -
  have r: "route53Stage env settings = (Inr (Some (butlast name)), [GetHostedZone z])"
    by (rule route53Stage_Some [OF assms(2,3,4)])
  moreover have "dnsBaseName vs = Some (butlast name)"
    if "Export vs \<in> set (snd (generate env))" for vs
    using generate_Export_dns [OF that assms(1)] r by simp
  ultimately show ?thesis by simp
qed

text \<open>A lookup that returns example.com: the stored name is example.co.\<close>

theorem dns_last_character_dropped_witness:
  "getHostedZone undottedZoneEnv (JStr ''Z123'') = Some ''example.com'' \<and>
   route53Stage undottedZoneEnv exampleSettings =
     (Inr (Some ''example.co''), [GetHostedZone (JStr ''Z123'')]) \<and>
   Export (exampleSnapshot\<lparr>dnsBaseName := Some ''example.co''\<rparr>)
     \<in> set (snd (generate undottedZoneEnv))"
proof -
  have h1: "settingsFile undottedZoneEnv = Some exampleSettings"
    by (simp add: example_defs undottedZoneEnv_def)
  have h2: "map_of exampleSettings ''route53Zone'' = Some (JStr ''Z123'')"
    by (simp add: example_defs)
  have h3: "truthy (JStr ''Z123'')" by simp
  have h4: "getHostedZone undottedZoneEnv (JStr ''Z123'') = Some ''example.com''"
    by (simp add: undottedZoneEnv_def)
  have e: "Export (exampleSnapshot\<lparr>dnsBaseName := Some ''example.co''\<rparr>)
     \<in> set (snd (generate undottedZoneEnv))"
    by (simp add: generate_undottedZoneEnv deployTrace_def)
  from dns_last_character_dropped [OF h1 h2 h3 h4]
  have "route53Stage undottedZoneEnv exampleSettings =
     (Inr (Some (butlast ''example.com'')), [GetHostedZone (JStr ''Z123'')])"
    by blast
  then have "route53Stage undottedZoneEnv exampleSettings =
     (Inr (Some ''example.co''), [GetHostedZone (JStr ''Z123'')])"
    by simp
  with h4 e show ?thesis by (intro conjI)
qed

end
